theory Spec2Isabelle
  imports Complex_Main
begin

section \<open>Data model of \<open>ev_fleet_optimizer.py\<close>\<close>

text \<open>
  Conventions of the embedding.
  \<^item> A timestamp is an \<open>int\<close>: seconds on a time line whose multiples of 3600 are the full
    hours, so that \<open>time.replace(minute=0, second=0, microsecond=0)\<close> is
    \<open>t - t mod 3600\<close>, a quarter of an hour is 900 and an hour is 3600.
  \<^item> A Python float is a \<open>rat\<close>: powers, energies, prices and costs are computed exactly
    (NaN and infinities are outside the model). The rounding of binary floating point is
    modelled separately, for the state of charge of the vehicles, in the section on the
    pass in double precision.
  \<^item> A price table (a data frame with the columns \<open>Time\<close> and \<open>cena\<close> and the default
    integer index) is a list of rows \<open>(Time, cena)\<close>.
  \<^item> \<open>self.vehicles\<close> is a list of vehicle records. The source shares each vehicle
    dictionary by reference between \<open>self.vehicles\<close>, \<open>eligible_vehicles\<close> and the
    per-slot demand lists and updates it in place; here the list is the store and the
    position of a vehicle in it is its address.
  \<^item> A raised exception is \<open>Inl\<close> of a sum type.
\<close>

datatype error = ValueError string | OverflowError string | ZeroDivisionError string

datatype idm_type = Min15 | Min60

text \<open>
  The values stored in \<open>vehicle['charging_schedule']\<close>: the baseline run stores the
  allocated power as a bare number, the optimized run stores one of three dictionaries,
  told apart by their \<open>'source'\<close> key.
\<close>

datatype schedule_entry =
    Kw rat
  | DAM rat
  | IDM rat idm_type
  | MIXED rat rat idm_type

record vehicle =
  vid :: string
  day :: int
  arrival_time :: int
  departure_time :: int
  return_soc :: rat
  target_soc :: rat
  current_soc :: rat
  capacity_kwh :: rat
  min_charge_kw :: rat
  max_charge_kw :: rat
  charging_schedule :: "int \<rightharpoonup> schedule_entry"
  energy_needed_kwh :: rat
  charging_hours :: rat

text \<open>One row of the data frame \<open>optimized\<close> (15-minute slots).\<close>

record opt_row =
  Time :: int
  total_charge_kw :: rat
  dam_charge_kw :: rat
  idm_charge_kw :: rat
  idm_15_charge_kw :: rat
  idm_60_charge_kw :: rat
  dam_price :: rat
  idm_price :: rat
  idm_15_price :: rat
  idm_60_price :: rat
  dam_cost :: rat
  idm_cost :: rat
  idm_15_cost :: rat
  idm_60_cost :: rat
  total_ev_charging :: int
  total_ev_charging_dam :: int
  total_ev_charging_idm :: int
  total_ev_charging_idm_15 :: int
  total_ev_charging_idm_60 :: int

text \<open>One row of the data frame \<open>baseline\<close> (hourly slots); the fields carry the prefix
  \<open>bl_\<close> because the two frames share column names.\<close>

record bl_row =
  bl_Time :: int
  bl_total_charge_kw :: rat
  bl_dam_price :: rat
  bl_dam_cost :: rat
  bl_total_ev_charging :: int

text \<open>An entry of \<open>time_slot_needs[time]['vehicles']\<close> and the per-slot dictionary.\<close>

record need =
  vehicle :: nat
  energy_kwh :: rat
  power_kw :: rat

record slot_needs =
  vehicles :: "need list"
  total_energy_kwh :: rat
  total_power_kw :: rat

text \<open>The fleet parameters held by an \<open>EVFleetOptimizer\<close> object.\<close>

record optimizer =
  fleet_size :: int
  ev_capacity :: rat
  cfg_min_charge_kw :: rat
  cfg_max_charge_kw :: rat
  min_soc_target :: rat
  workdays_only :: bool

section \<open>Construction and validation\<close>

text \<open>\<open>__init__\<close> stores its arguments; it performs no check and cannot fail. The messages
  of the exceptions are given in English.\<close>

definition EVFleetOptimizer_init :: "int \<Rightarrow> rat \<Rightarrow> rat \<Rightarrow> rat \<Rightarrow> rat \<Rightarrow> bool \<Rightarrow> optimizer" where
  "EVFleetOptimizer_init fs cap mn mx soc wd =
     \<lparr>fleet_size = fs, ev_capacity = cap, cfg_min_charge_kw = mn, cfg_max_charge_kw = mx,
      min_soc_target = soc, workdays_only = wd\<rparr>"

definition validate_parameters :: "optimizer \<Rightarrow> error + unit" where
  "validate_parameters self =
    (if fleet_size self \<le> 0 then Inl (ValueError ''fleet size must be positive'')
     else if ev_capacity self \<le> 0 then Inl (ValueError ''battery capacity must be positive'')
     else if cfg_min_charge_kw self < 0 \<or> cfg_max_charge_kw self \<le> 0
             \<or> cfg_min_charge_kw self > cfg_max_charge_kw self
          then Inl (ValueError ''invalid charging power values'')
     else if min_soc_target self \<le> 0 \<or> min_soc_target self > 1
          then Inl (ValueError ''target SOC must be in (0, 1]'')
     else Inr ())"

section \<open>Helpers shared by the two strategies\<close>

text \<open>Python's \<open>int(x)\<close> on a float truncates towards zero.\<close>

definition py_int :: "rat \<Rightarrow> int" where
  "py_int x = (if 0 \<le> x then \<lfloor>x\<rfloor> else \<lceil>x\<rceil>)"

definition get_eligible_vehicles_pred :: "int \<Rightarrow> int \<Rightarrow> vehicle \<Rightarrow> bool" where
  "get_eligible_vehicles_pred start_time end_time v \<longleftrightarrow>
     departure_time v > start_time \<and> arrival_time v < end_time"

definition get_eligible_vehicles :: "vehicle list \<Rightarrow> int \<Rightarrow> int \<Rightarrow> nat list" where
  "get_eligible_vehicles vs start_time end_time =
     [j \<leftarrow> [0 ..< length vs]. get_eligible_vehicles_pred start_time end_time (vs ! j)]"

text \<open>The rows of a price table whose time lies in \<open>[lo, hi)\<close>, in table order.\<close>

definition prices_in_range :: "(int \<times> rat) list \<Rightarrow> int \<Rightarrow> int \<Rightarrow> (int \<times> rat) list" where
  "prices_in_range tbl lo hi = [r \<leftarrow> tbl. lo \<le> fst r \<and> fst r < hi]"

text \<open>
  \<open>(tbl['Time'] - t).abs().idxmin()\<close>: the first position whose time is nearest to \<open>t\<close>.
  On an empty table \<open>idxmin\<close> raises \<open>ValueError\<close>.
\<close>

fun idxmin_from :: "nat \<Rightarrow> int \<Rightarrow> nat \<Rightarrow> int list \<Rightarrow> nat" where
  "idxmin_from best bestd i [] = best"
| "idxmin_from best bestd i (d # ds) =
     (if d < bestd then idxmin_from i d (Suc i) ds else idxmin_from best bestd (Suc i) ds)"

definition closest_idx :: "(int \<times> rat) list \<Rightarrow> int \<Rightarrow> error + nat" where
  "closest_idx tbl t =
     (case map (\<lambda>r. \<bar>fst r - t\<bar>) tbl of
        [] \<Rightarrow> Inl (ValueError ''attempt to get argmin of an empty sequence'')
      | d # ds \<Rightarrow> Inr (idxmin_from 0 d 1 ds))"

text \<open>
  The DAM price of the bucket that starts at \<open>t\<close> and lasts one hour, as both strategies
  look it up: the first row inside the bucket, else the row nearest in time, else 50.0.
\<close>

definition find_dam_price :: "(int \<times> rat) list \<Rightarrow> int \<Rightarrow> error + rat" where
  "find_dam_price dam_prices t =
     (case prices_in_range dam_prices t (t + 3600) of
        r # _ \<Rightarrow> Inr (snd r)
      | [] \<Rightarrow>
         (case closest_idx dam_prices t of
            Inl e \<Rightarrow> Inl e
          | Inr k \<Rightarrow> if k < length dam_prices then Inr (snd (dam_prices ! k)) else Inr 50))"

text \<open>An IDM price: the first row inside the bucket, else the slot's DAM price.\<close>

definition find_idm_price :: "(int \<times> rat) list \<Rightarrow> int \<Rightarrow> int \<Rightarrow> rat \<Rightarrow> rat" where
  "find_idm_price idm_prices lo hi dam =
     (case prices_in_range idm_prices lo hi of r # _ \<Rightarrow> snd r | [] \<Rightarrow> dam)"

section \<open>The optimized strategy (DAM and IDM)\<close>

text \<open>
  The 15-minute grid. \<open>simulation_end = None\<close> means 24 hours after the start; the number
  of periods is truncated towards zero, and \<open>pd.date_range\<close> raises \<open>OverflowError\<close> on a
  negative number of periods.
\<close>

definition resolve_end :: "int \<Rightarrow> int option \<Rightarrow> int" where
  "resolve_end simulation_start simulation_end =
     (case simulation_end of None \<Rightarrow> simulation_start + 24 * 3600 | Some e \<Rightarrow> e)"

definition date_range :: "int \<Rightarrow> int \<Rightarrow> int \<Rightarrow> error + int list" where
  "date_range start periods freq =
     (if periods < 0 then Inl (OverflowError ''negative number of periods'')
      else Inr (map (\<lambda>k. start + freq * int k) [0 ..< nat periods]))"

definition opt_schedule_times :: "int \<Rightarrow> int \<Rightarrow> error + int list" where
  "opt_schedule_times simulation_start simulation_end =
     date_range simulation_start (py_int (of_int (simulation_end - simulation_start) / 900)) 900"

definition opt_empty_row :: "int \<Rightarrow> opt_row" where
  "opt_empty_row t =
     \<lparr>Time = t, total_charge_kw = 0, dam_charge_kw = 0, idm_charge_kw = 0,
      idm_15_charge_kw = 0, idm_60_charge_kw = 0, dam_price = 0, idm_price = 0,
      idm_15_price = 0, idm_60_price = 0, dam_cost = 0, idm_cost = 0, idm_15_cost = 0,
      idm_60_cost = 0, total_ev_charging = 0, total_ev_charging_dam = 0,
      total_ev_charging_idm = 0, total_ev_charging_idm_15 = 0, total_ev_charging_idm_60 = 0\<rparr>"

text \<open>
  The body of the loop \<open>Load price data\<close> for one row. The loop contains no \<open>print\<close>, no
  \<open>warnings.warn\<close> and no counter: the second component of the result is the list of
  messages it emits, which is empty on every path.
\<close>

definition load_price_row ::
  "(int \<times> rat) list \<Rightarrow> (int \<times> rat) list \<Rightarrow> (int \<times> rat) list \<Rightarrow> opt_row \<Rightarrow> error + (opt_row \<times> string list)" where
  "load_price_row dam_prices idm_15_prices idm_60_prices row =
     (let time = Time row; hour = time - time mod 3600 in
      case find_dam_price dam_prices hour of
        Inl e \<Rightarrow> Inl e
      | Inr dam \<Rightarrow>
          (let p15 = find_idm_price idm_15_prices time (time + 900) dam;
               p60 = find_idm_price idm_60_prices hour (hour + 3600) dam
           in Inr (row\<lparr>dam_price := dam, idm_15_price := p15, idm_60_price := p60,
                          idm_price := min p15 p60\<rparr>, [])))"

fun load_price_data ::
  "(int \<times> rat) list \<Rightarrow> (int \<times> rat) list \<Rightarrow> (int \<times> rat) list \<Rightarrow> opt_row list \<Rightarrow> error + (opt_row list \<times> string list)" where
  "load_price_data dam_prices idm_15_prices idm_60_prices [] = Inr ([], [])"
| "load_price_data dam_prices idm_15_prices idm_60_prices (row # rows) =
     (case load_price_row dam_prices idm_15_prices idm_60_prices row of
        Inl e \<Rightarrow> Inl e
      | Inr (row', msgs) \<Rightarrow>
          (case load_price_data dam_prices idm_15_prices idm_60_prices rows of
             Inl e \<Rightarrow> Inl e
           | Inr (rows', msgs') \<Rightarrow> Inr (row' # rows', msgs @ msgs')))"

subsection \<open>Phase 1: the charging needs of every time slot\<close>

text \<open>
  \<open>time_slot_needs\<close> is a dictionary with one key per schedule time, created in schedule
  order; it is the list of its items in that order. Every later access uses a schedule
  time, so no lookup can miss.
\<close>

definition init_time_slot_needs :: "int list \<Rightarrow> (int \<times> slot_needs) list" where
  "init_time_slot_needs schedule_times =
     map (\<lambda>t. (t, \<lparr>vehicles = [], total_energy_kwh = 0, total_power_kw = 0\<rparr>)) schedule_times"

definition add_need :: "nat \<Rightarrow> rat \<Rightarrow> rat \<Rightarrow> slot_needs \<Rightarrow> slot_needs" where
  "add_need j e p n =
     n\<lparr>vehicles := vehicles n @ [\<lparr>vehicle = j, energy_kwh = e, power_kw = p\<rparr>],
       total_energy_kwh := total_energy_kwh n + e,
       total_power_kw := total_power_kw n + p\<rparr>"

definition record_need ::
  "(int \<times> slot_needs) list \<Rightarrow> int \<Rightarrow> nat \<Rightarrow> rat \<Rightarrow> rat \<Rightarrow> (int \<times> slot_needs) list" where
  "record_need tsn time j e p =
     map (\<lambda>tn. if fst tn = time then (fst tn, add_need j e p (snd tn)) else tn) tsn"

text \<open>The loop \<open>for time, _ in time_prices\<close> of one vehicle (\<open>j\<close> is its address).\<close>

fun distribute_energy ::
  "nat \<Rightarrow> rat \<Rightarrow> rat \<Rightarrow> (int \<times> rat) list \<Rightarrow> (int \<times> slot_needs) list \<Rightarrow> (int \<times> slot_needs) list" where
  "distribute_energy j mx remaining_energy_kwh [] tsn = tsn"
| "distribute_energy j mx remaining_energy_kwh (tp # time_prices) tsn =
     (if remaining_energy_kwh \<le> 0 then tsn
      else
        (let max_energy_per_period = mx * (1/4);
             charge_amount_kwh = min max_energy_per_period remaining_energy_kwh;
             charge_power_kw = charge_amount_kwh / (1/4)
         in if charge_amount_kwh > 0
            then distribute_energy j mx (remaining_energy_kwh - charge_amount_kwh) time_prices
                   (record_need tsn (fst tp) j charge_amount_kwh charge_power_kw)
            else distribute_energy j mx remaining_energy_kwh time_prices tsn))"

text \<open>
  The slots of the vehicle's stay with their DAM prices, in schedule order, sorted by
  price with Python's stable \<open>list.sort\<close>. The frame \<open>optimized\<close> has exactly one row per
  schedule time, so the price looked up for a valid time is that of its row.
\<close>

definition time_prices_of :: "opt_row list \<Rightarrow> vehicle \<Rightarrow> (int \<times> rat) list" where
  "time_prices_of optimized v =
     map (\<lambda>r. (Time r, dam_price r))
       [r \<leftarrow> optimized. Time r \<ge> arrival_time v \<and> Time r < departure_time v]"

definition vehicle_needs ::
  "opt_row list \<Rightarrow> nat \<Rightarrow> vehicle \<Rightarrow> (int \<times> slot_needs) list \<Rightarrow> (int \<times> slot_needs) list" where
  "vehicle_needs optimized j v tsn =
     (let total_energy_needed_kwh = (target_soc v - return_soc v) * capacity_kwh v in
      if total_energy_needed_kwh \<le> 0 then tsn
      else if time_prices_of optimized v = [] then tsn
      else distribute_energy j (max_charge_kw v) total_energy_needed_kwh
             (sort_key snd (time_prices_of optimized v)) tsn)"

definition reset_vehicle :: "vehicle \<Rightarrow> vehicle" where
  "reset_vehicle v = v\<lparr>current_soc := return_soc v, charging_schedule := Map.empty\<rparr>"

fun reset_eligible :: "nat list \<Rightarrow> vehicle list \<Rightarrow> vehicle list" where
  "reset_eligible [] vs = vs"
| "reset_eligible (j # js) vs = reset_eligible js (vs[j := reset_vehicle (vs ! j)])"

fun phase1 ::
  "opt_row list \<Rightarrow> vehicle list \<Rightarrow> nat list \<Rightarrow> (int \<times> slot_needs) list \<Rightarrow> (int \<times> slot_needs) list" where
  "phase1 optimized vs [] tsn = tsn"
| "phase1 optimized vs (j # js) tsn = phase1 optimized vs js (vehicle_needs optimized j (vs ! j) tsn)"

subsection \<open>Phase 2 and phase 3: the market split of a slot and its distribution\<close>

text \<open>\<open>idm_actual_kw\<close> is a Python \<open>int\<close>; \<open>d\<close> is the slot's \<open>total_power_kw\<close>.\<close>

definition idm_actual_kw :: "rat \<Rightarrow> rat \<Rightarrow> int" where
  "idm_actual_kw DAM_ALLOCATION d =
     (let dam_target_kw = d * DAM_ALLOCATION;
          idm_target_kw = d - dam_target_kw
      in py_int (idm_target_kw / 100) * 100)"

definition dam_actual_kw :: "rat \<Rightarrow> rat \<Rightarrow> rat" where
  "dam_actual_kw DAM_ALLOCATION d = d - of_int (idm_actual_kw DAM_ALLOCATION d)"

definition use_15_min_idm :: "opt_row \<Rightarrow> bool" where
  "use_15_min_idm row \<longleftrightarrow> idm_15_price row \<le> idm_60_price row"

text \<open>The updates of the slot's row (\<open>n\<close> is \<open>len(slot_needs['vehicles'])\<close>).\<close>

definition update_row :: "rat \<Rightarrow> opt_row \<Rightarrow> slot_needs \<Rightarrow> opt_row" where
  "update_row DAM_ALLOCATION row sn =
     (let d = total_power_kw sn;
          n = int (length (vehicles sn));
          idm = idm_actual_kw DAM_ALLOCATION d;
          dam = dam_actual_kw DAM_ALLOCATION d;
          row1 = (if idm > 0
                  then (if use_15_min_idm row
                        then row\<lparr>idm_15_charge_kw := of_int idm, total_ev_charging_idm_15 := n\<rparr>
                        else row\<lparr>idm_60_charge_kw := of_int idm, total_ev_charging_idm_60 := n\<rparr>)
                       \<lparr>idm_charge_kw := of_int idm, total_ev_charging_idm := n\<rparr>
                  else row);
          row2 = (if dam > 0 then row1\<lparr>dam_charge_kw := dam, total_ev_charging_dam := n\<rparr>
                  else row1)
      in row2\<lparr>total_charge_kw := d, total_ev_charging := n\<rparr>)"

text \<open>
  Phase 3 for one entry of the slot: \<open>p\<close> is the entry's \<open>power_kw\<close>. The division by
  \<open>capacity_kwh\<close> cannot fail: an entry exists only for a vehicle whose energy need
  \<open>(target_soc - return_soc) * capacity_kwh\<close> is positive (lemma
  \<open>needs_capacity_nonzero\<close>). The sum \<open>current_soc + total_energy / capacity_kwh\<close> is exact
  here; the source rounds the quotient and the sum to doubles, which \<open>charge_vehicle_fp\<close>
  in the section on the pass in double precision does.
\<close>

definition charge_vehicle :: "int \<Rightarrow> bool \<Rightarrow> rat \<Rightarrow> rat \<Rightarrow> rat \<Rightarrow> vehicle \<Rightarrow> vehicle" where
  "charge_vehicle time use15 idm_ratio dam_ratio p v =
     (let vehicle_idm_kw = p * idm_ratio;
          vehicle_dam_kw = p * dam_ratio;
          idm_energy_kwh = vehicle_idm_kw * (1/4);
          dam_energy_kwh = vehicle_dam_kw * (1/4);
          total_energy = idm_energy_kwh + dam_energy_kwh;
          v1 = v\<lparr>current_soc := current_soc v + total_energy / capacity_kwh v\<rparr>;
          ty = (if use15 then Min15 else Min60)
      in if vehicle_idm_kw > 0 \<and> vehicle_dam_kw > 0
         then v1\<lparr>charging_schedule := (charging_schedule v1)(time \<mapsto> MIXED vehicle_dam_kw vehicle_idm_kw ty)\<rparr>
         else if vehicle_idm_kw > 0
         then v1\<lparr>charging_schedule := (charging_schedule v1)(time \<mapsto> IDM vehicle_idm_kw ty)\<rparr>
         else if vehicle_dam_kw > 0
         then v1\<lparr>charging_schedule := (charging_schedule v1)(time \<mapsto> DAM vehicle_dam_kw)\<rparr>
         else v1)"

fun distribute_back ::
  "int \<Rightarrow> bool \<Rightarrow> rat \<Rightarrow> rat \<Rightarrow> need list \<Rightarrow> vehicle list \<Rightarrow> vehicle list" where
  "distribute_back time use15 idm_ratio dam_ratio [] vs = vs"
| "distribute_back time use15 idm_ratio dam_ratio (vd # vds) vs =
     distribute_back time use15 idm_ratio dam_ratio vds
       (vs[vehicle vd := charge_vehicle time use15 idm_ratio dam_ratio (power_kw vd) (vs ! vehicle vd)])"

definition update_vehicles :: "rat \<Rightarrow> opt_row \<Rightarrow> int \<Rightarrow> slot_needs \<Rightarrow> vehicle list \<Rightarrow> vehicle list" where
  "update_vehicles DAM_ALLOCATION row time sn vs =
     (let d = total_power_kw sn in
      if d > 0
      then distribute_back time (use_15_min_idm row)
             (of_int (idm_actual_kw DAM_ALLOCATION d) / d) (dam_actual_kw DAM_ALLOCATION d / d)
             (vehicles sn) vs
      else vs)"

text \<open>One iteration of \<open>for i, time in enumerate(schedule_times)\<close>.\<close>

definition allocate_slot ::
  "rat \<Rightarrow> opt_row \<Rightarrow> int \<times> slot_needs \<Rightarrow> vehicle list \<Rightarrow> opt_row \<times> vehicle list" where
  "allocate_slot DAM_ALLOCATION row tn vs =
     (if vehicles (snd tn) = [] then (row, vs)
      else (update_row DAM_ALLOCATION row (snd tn),
            update_vehicles DAM_ALLOCATION row (fst tn) (snd tn) vs))"

fun phase2 ::
  "rat \<Rightarrow> opt_row list \<Rightarrow> (int \<times> slot_needs) list \<Rightarrow> vehicle list \<Rightarrow> opt_row list \<times> vehicle list" where
  "phase2 DAM_ALLOCATION (row # rows) (tn # tsn) vs =
     (let (row', vs') = allocate_slot DAM_ALLOCATION row tn vs;
          (rows', vs'') = phase2 DAM_ALLOCATION rows tsn vs'
      in (row' # rows', vs''))"
| "phase2 DAM_ALLOCATION rows tsn vs = (rows, vs)"

subsection \<open>Costs and the whole strategy\<close>

definition calc_costs :: "opt_row \<Rightarrow> opt_row" where
  "calc_costs row =
     (let c_dam = dam_charge_kw row * dam_price row / 1000 * (1/4);
          c_15 = idm_15_charge_kw row * idm_15_price row / 1000 * (1/4);
          c_60 = idm_60_charge_kw row * idm_60_price row / 1000 * (1/4)
      in row\<lparr>dam_cost := c_dam, idm_15_cost := c_15, idm_60_cost := c_60, idm_cost := c_15 + c_60\<rparr>)"

text \<open>
  The result is the returned frame and \<open>self.vehicles\<close> after the run. The argument
  \<open>options\<close> is never read. An exception of the price loop leaves the vehicles untouched:
  they are first written in phase 1.
\<close>

definition optimized_strategy ::
  "(int \<times> rat) list \<Rightarrow> (int \<times> rat) list \<Rightarrow> (int \<times> rat) list \<Rightarrow> vehicle list \<Rightarrow>
   int \<Rightarrow> int option \<Rightarrow> rat \<Rightarrow> error + (opt_row list \<times> vehicle list)" where
  "optimized_strategy dam_prices idm_15_prices idm_60_prices vs simulation_start simulation_end DAM_ALLOCATION =
     (let end_time = resolve_end simulation_start simulation_end in
      case opt_schedule_times simulation_start end_time of
        Inl e \<Rightarrow> Inl e
      | Inr schedule_times \<Rightarrow>
          (let eligible_vehicles = get_eligible_vehicles vs simulation_start end_time in
           case load_price_data dam_prices idm_15_prices idm_60_prices (map opt_empty_row schedule_times) of
             Inl e \<Rightarrow> Inl e
           | Inr (optimized, msgs) \<Rightarrow>
               (let vs1 = reset_eligible eligible_vehicles vs;
                    tsn = phase1 optimized vs1 eligible_vehicles (init_time_slot_needs schedule_times);
                    (optimized2, vs2) = phase2 DAM_ALLOCATION optimized tsn vs1
                in Inr (map calc_costs optimized2, vs2))))"

section \<open>The baseline strategy (DAM only)\<close>

definition bl_schedule_times :: "int \<Rightarrow> int \<Rightarrow> error + int list" where
  "bl_schedule_times simulation_start simulation_end =
     (let h = py_int (of_int (simulation_end - simulation_start) / 3600);
          simulation_hours = (if h \<le> 0 then 24 else h)
      in date_range simulation_start simulation_hours 3600)"

definition bl_empty_row :: "int \<Rightarrow> bl_row" where
  "bl_empty_row t =
     \<lparr>bl_Time = t, bl_total_charge_kw = 0, bl_dam_price = 0, bl_dam_cost = 0, bl_total_ev_charging = 0\<rparr>"

fun bl_load_prices :: "(int \<times> rat) list \<Rightarrow> bl_row list \<Rightarrow> error + bl_row list" where
  "bl_load_prices dam_prices [] = Inr []"
| "bl_load_prices dam_prices (row # rows) =
     (case find_dam_price dam_prices (bl_Time row) of
        Inl e \<Rightarrow> Inl e
      | Inr p \<Rightarrow>
          (case bl_load_prices dam_prices rows of
             Inl e \<Rightarrow> Inl e
           | Inr rows' \<Rightarrow> Inr (row\<lparr>bl_dam_price := p\<rparr> # rows')))"

definition bl_add :: "bl_row list \<Rightarrow> int \<Rightarrow> rat \<Rightarrow> bl_row list" where
  "bl_add baseline time m =
     map (\<lambda>r. if bl_Time r = time
              then r\<lparr>bl_total_charge_kw := bl_total_charge_kw r + m,
                     bl_total_ev_charging := bl_total_ev_charging r + 1\<rparr>
              else r) baseline"

text \<open>
  The loop \<open>for _, slot in charging_slots.iterrows()\<close>; the state is the frame, the
  vehicle's new schedule, the remaining energy and \<open>hours_charged\<close>.
\<close>

fun bl_allocate ::
  "rat \<Rightarrow> rat \<Rightarrow> bl_row list \<Rightarrow> bl_row list \<Rightarrow> (int \<rightharpoonup> schedule_entry) \<Rightarrow> nat \<Rightarrow>
   bl_row list \<times> (int \<rightharpoonup> schedule_entry) \<times> rat \<times> nat" where
  "bl_allocate mx remaining_energy [] baseline vehicle_schedule hours_charged =
     (baseline, vehicle_schedule, remaining_energy, hours_charged)"
| "bl_allocate mx remaining_energy (slot # slots) baseline vehicle_schedule hours_charged =
     (if remaining_energy \<le> 0 then (baseline, vehicle_schedule, remaining_energy, hours_charged)
      else
        (let time = bl_Time slot;
             max_energy_per_hour = min mx remaining_energy
         in bl_allocate mx (remaining_energy - max_energy_per_hour) slots
              (bl_add baseline time max_energy_per_hour)
              (vehicle_schedule(time \<mapsto> Kw max_energy_per_hour))
              (hours_charged + 1)))"

text \<open>
  The body of \<open>for vehicle in eligible_vehicles\<close>. \<open>sort_values\<close> stands for
  \<open>charging_slots.sort_values('dam_price')\<close>: pandas sorts with its default algorithm,
  which is not stable, so the order among equal prices is left to this parameter. The
  frame has at least one row (\<open>simulation_hours\<close> is positive), so \<open>min()\<close> and \<open>max()\<close>
  of its times exist. The division by \<open>capacity_kwh\<close> is reached only when the energy
  need, a multiple of the capacity, is positive.
\<close>

definition bl_vehicle :: "(bl_row list \<Rightarrow> bl_row list) \<Rightarrow> bl_row list \<Rightarrow> vehicle \<Rightarrow> bl_row list \<times> vehicle" where
  "bl_vehicle sort_values baseline v =
     (let energy_needed = (target_soc v - return_soc v) * capacity_kwh v in
      if energy_needed \<le> 0 then (baseline, v)
      else
        (let charging_start = max (arrival_time v) (Min (set (map bl_Time baseline)));
             charging_end = min (departure_time v) (Max (set (map bl_Time baseline)));
             charging_slots = [r \<leftarrow> baseline. bl_Time r \<ge> charging_start \<and> bl_Time r < charging_end]
         in if length charging_slots = 0 then (baseline, v)
            else
              (case bl_allocate (max_charge_kw v) energy_needed (sort_values charging_slots)
                      baseline Map.empty 0 of
                 (baseline', vehicle_schedule, remaining_energy, hours_charged) \<Rightarrow>
                   (let energy_charged = energy_needed - remaining_energy
                    in (baseline',
                        v\<lparr>charging_schedule := vehicle_schedule,
                          current_soc := return_soc v + energy_charged / capacity_kwh v\<rparr>)))))"

fun bl_loop ::
  "(bl_row list \<Rightarrow> bl_row list) \<Rightarrow> nat list \<Rightarrow> bl_row list \<Rightarrow> vehicle list \<Rightarrow> bl_row list \<times> vehicle list" where
  "bl_loop sort_values [] baseline vs = (baseline, vs)"
| "bl_loop sort_values (j # js) baseline vs =
     (case bl_vehicle sort_values baseline (vs ! j) of
        (baseline', v') \<Rightarrow> bl_loop sort_values js baseline' (vs[j := v']))"

definition bl_cost :: "bl_row \<Rightarrow> bl_row" where
  "bl_cost r = r\<lparr>bl_dam_cost := bl_total_charge_kw r * bl_dam_price r / 1000\<rparr>"

definition baseline_strategy ::
  "(bl_row list \<Rightarrow> bl_row list) \<Rightarrow> (int \<times> rat) list \<Rightarrow> vehicle list \<Rightarrow> int \<Rightarrow> int option \<Rightarrow>
   error + (bl_row list \<times> vehicle list)" where
  "baseline_strategy sort_values dam_prices vs simulation_start simulation_end =
     (let end_time = resolve_end simulation_start simulation_end in
      case bl_schedule_times simulation_start end_time of
        Inl e \<Rightarrow> Inl e
      | Inr schedule_times \<Rightarrow>
          (let eligible_vehicles = get_eligible_vehicles vs simulation_start end_time in
           case bl_load_prices dam_prices (map bl_empty_row schedule_times) of
             Inl e \<Rightarrow> Inl e
           | Inr baseline \<Rightarrow>
               (case bl_loop sort_values eligible_vehicles baseline vs of
                  (baseline', vs') \<Rightarrow> Inr (map bl_cost baseline', vs'))))"

section \<open>Average prices\<close>

text \<open>The line \<open>Priemerna cena\<close> printed at the end of \<open>baseline_strategy\<close>: a number, or
  the text \<open>N/A\<close>.\<close>

datatype avg_line = Avg rat | Not_Available

definition baseline_avg_line :: "bl_row list \<Rightarrow> avg_line" where
  "baseline_avg_line baseline =
     (let total_energy = sum_list (map bl_total_charge_kw baseline);
          total_cost = sum_list (map bl_dam_cost baseline)
      in if total_energy > 0 then Avg (total_cost / total_energy * 1000) else Not_Available)"

text \<open>
  \<open>aggregate_hourly_results\<close>. When the frame has more than one row and its first two rows
  are 900 seconds apart, the rows are grouped by the hour of their time (\<open>groupby\<close> sorts
  the groups by that hour): power, price and vehicle-count columns are averaged over the
  group, cost columns are summed. Otherwise the frame is returned as it is. A row of the
  result is an \<open>hourly_row\<close>: an average of counts need not be an integer. \<open>unaggregated\<close>
  is a row of the frame returned as it is.
\<close>

record hourly_row =
  h_Time :: int
  h_total_charge_kw :: rat
  h_total_ev_charging :: rat
  h_dam_charge_kw :: rat
  h_idm_charge_kw :: rat
  h_idm_15_charge_kw :: rat
  h_idm_60_charge_kw :: rat
  h_dam_price :: rat
  h_idm_price :: rat
  h_idm_15_price :: rat
  h_idm_60_price :: rat
  h_dam_cost :: rat
  h_idm_cost :: rat
  h_idm_15_cost :: rat
  h_idm_60_cost :: rat
  h_total_ev_charging_dam :: rat
  h_total_ev_charging_idm :: rat
  h_total_ev_charging_idm_15 :: rat
  h_total_ev_charging_idm_60 :: rat

definition mean :: "rat list \<Rightarrow> rat" where
  "mean xs = sum_list xs / of_nat (length xs)"

definition hour_floor :: "int \<Rightarrow> int" where
  "hour_floor t = t - t mod 3600"

definition agg_hour :: "opt_row list \<Rightarrow> int \<Rightarrow> hourly_row" where
  "agg_hour results h =
     (let g = [r \<leftarrow> results. hour_floor (Time r) = h] in
      \<lparr>h_Time = h,
       h_total_charge_kw = mean (map total_charge_kw g),
       h_total_ev_charging = mean (map (\<lambda>r. of_int (total_ev_charging r)) g),
       h_dam_charge_kw = mean (map dam_charge_kw g),
       h_idm_charge_kw = mean (map idm_charge_kw g),
       h_idm_15_charge_kw = mean (map idm_15_charge_kw g),
       h_idm_60_charge_kw = mean (map idm_60_charge_kw g),
       h_dam_price = mean (map dam_price g),
       h_idm_price = mean (map idm_price g),
       h_idm_15_price = mean (map idm_15_price g),
       h_idm_60_price = mean (map idm_60_price g),
       h_dam_cost = sum_list (map dam_cost g),
       h_idm_cost = sum_list (map idm_cost g),
       h_idm_15_cost = sum_list (map idm_15_cost g),
       h_idm_60_cost = sum_list (map idm_60_cost g),
       h_total_ev_charging_dam = mean (map (\<lambda>r. of_int (total_ev_charging_dam r)) g),
       h_total_ev_charging_idm = mean (map (\<lambda>r. of_int (total_ev_charging_idm r)) g),
       h_total_ev_charging_idm_15 = mean (map (\<lambda>r. of_int (total_ev_charging_idm_15 r)) g),
       h_total_ev_charging_idm_60 = mean (map (\<lambda>r. of_int (total_ev_charging_idm_60 r)) g)\<rparr>)"

definition unaggregated :: "opt_row \<Rightarrow> hourly_row" where
  "unaggregated r =
     \<lparr>h_Time = Time r,
      h_total_charge_kw = total_charge_kw r,
      h_total_ev_charging = of_int (total_ev_charging r),
      h_dam_charge_kw = dam_charge_kw r,
      h_idm_charge_kw = idm_charge_kw r,
      h_idm_15_charge_kw = idm_15_charge_kw r,
      h_idm_60_charge_kw = idm_60_charge_kw r,
      h_dam_price = dam_price r,
      h_idm_price = idm_price r,
      h_idm_15_price = idm_15_price r,
      h_idm_60_price = idm_60_price r,
      h_dam_cost = dam_cost r,
      h_idm_cost = idm_cost r,
      h_idm_15_cost = idm_15_cost r,
      h_idm_60_cost = idm_60_cost r,
      h_total_ev_charging_dam = of_int (total_ev_charging_dam r),
      h_total_ev_charging_idm = of_int (total_ev_charging_idm r),
      h_total_ev_charging_idm_15 = of_int (total_ev_charging_idm_15 r),
      h_total_ev_charging_idm_60 = of_int (total_ev_charging_idm_60 r)\<rparr>"

definition aggregate_hourly_results :: "opt_row list \<Rightarrow> hourly_row list" where
  "aggregate_hourly_results results =
     (if length results > 1 \<and> Time (results ! 1) - Time (results ! 0) = 900
      then map (agg_hour results) (sort (remdups (map (\<lambda>r. hour_floor (Time r)) results)))
      else map unaggregated results)"

text \<open>
  \<open>summarize_results\<close>, up to the point where the table is printed. Its arguments are
  \<open>self.baseline_results\<close>, \<open>self.optimized_results\<close> (\<open>None\<close> before the strategy has run)
  and \<open>self.vehicles\<close>; the result is the record of the values the table prints, \<open>None\<close>
  when a result is missing (the function then prints a notice and returns), or the
  exception it raises. The average departure SOC divides by \<open>len(self.vehicles)\<close>, two
  Python integers when the fleet is empty: that is the \<open>ZeroDivisionError\<close>, raised after
  the averages are computed and before the table is printed. On a non-empty fleet \<open>min\<close>
  has an argument. The daily and per-vehicle metrics are left out: they divide numpy
  floats, whose division does not raise, by \<open>simulation_days\<close>, which is at least 1, and by
  \<open>fleet_size * simulation_days\<close>.
\<close>

record summary =
  baseline_total_cost :: rat
  optimized_dam_cost :: rat
  optimized_idm_15_cost :: rat
  optimized_idm_60_cost :: rat
  optimized_total_cost :: rat
  savings :: rat
  savings_pct :: rat
  baseline_energy :: rat
  optimized_dam_energy :: rat
  optimized_idm_15_energy :: rat
  optimized_idm_60_energy :: rat
  optimized_total_energy :: rat
  baseline_avg_price :: rat
  optimized_dam_avg_price :: rat
  optimized_idm_15_avg_price :: rat
  optimized_idm_60_avg_price :: rat
  optimized_total_avg_price :: rat
  avg_departure_soc :: rat
  min_departure_soc :: rat

definition summarize_results ::
  "bl_row list option \<Rightarrow> opt_row list option \<Rightarrow> vehicle list \<Rightarrow> error + summary option" where
  "summarize_results baseline_results optimized_results vs =
     (case (baseline_results, optimized_results) of
        (Some baseline, Some optimized) \<Rightarrow>
          (let hourly_optimized = aggregate_hourly_results optimized;
               baseline_total_cost = sum_list (map bl_dam_cost baseline);
               optimized_dam_cost = sum_list (map h_dam_cost hourly_optimized);
               optimized_idm_15_cost = sum_list (map h_idm_15_cost hourly_optimized);
               optimized_idm_60_cost = sum_list (map h_idm_60_cost hourly_optimized);
               optimized_idm_cost = optimized_idm_15_cost + optimized_idm_60_cost;
               optimized_total_cost = optimized_dam_cost + optimized_idm_cost;
               savings = baseline_total_cost - optimized_total_cost;
               savings_pct = (if baseline_total_cost > 0 then savings / baseline_total_cost * 100 else 0);
               baseline_energy = sum_list (map bl_total_charge_kw baseline);
               optimized_dam_energy = sum_list (map h_dam_charge_kw hourly_optimized);
               optimized_idm_15_energy = sum_list (map h_idm_15_charge_kw hourly_optimized);
               optimized_idm_60_energy = sum_list (map h_idm_60_charge_kw hourly_optimized);
               optimized_total_energy = optimized_dam_energy + optimized_idm_15_energy + optimized_idm_60_energy;
               baseline_avg_price =
                 (if baseline_energy > 0 then baseline_total_cost / (baseline_energy / 1000) else 0);
               optimized_dam_avg_price =
                 (if optimized_dam_energy > 0 then optimized_dam_cost / (optimized_dam_energy / 1000) else 0);
               optimized_idm_15_avg_price =
                 (if optimized_idm_15_energy > 0
                  then optimized_idm_15_cost / (optimized_idm_15_energy / 1000) else 0);
               optimized_idm_60_avg_price =
                 (if optimized_idm_60_energy > 0
                  then optimized_idm_60_cost / (optimized_idm_60_energy / 1000) else 0);
               optimized_total_avg_price =
                 (if optimized_total_energy > 0
                  then optimized_total_cost / (optimized_total_energy / 1000) else 0)
           in if length vs = 0 then Inl (ZeroDivisionError ''division by zero'')
              else Inr (Some
                \<lparr>baseline_total_cost = baseline_total_cost,
                 optimized_dam_cost = optimized_dam_cost,
                 optimized_idm_15_cost = optimized_idm_15_cost,
                 optimized_idm_60_cost = optimized_idm_60_cost,
                 optimized_total_cost = optimized_total_cost,
                 savings = savings,
                 savings_pct = savings_pct,
                 baseline_energy = baseline_energy,
                 optimized_dam_energy = optimized_dam_energy,
                 optimized_idm_15_energy = optimized_idm_15_energy,
                 optimized_idm_60_energy = optimized_idm_60_energy,
                 optimized_total_energy = optimized_total_energy,
                 baseline_avg_price = baseline_avg_price,
                 optimized_dam_avg_price = optimized_dam_avg_price,
                 optimized_idm_15_avg_price = optimized_idm_15_avg_price,
                 optimized_idm_60_avg_price = optimized_idm_60_avg_price,
                 optimized_total_avg_price = optimized_total_avg_price,
                 avg_departure_soc = sum_list (map current_soc vs) / of_nat (length vs),
                 min_departure_soc = Min (set (map current_soc vs))\<rparr>))
      | _ \<Rightarrow> Inr None)"

section \<open>Observations on results\<close>

definition result_rows :: "error + ('r list \<times> vehicle list) \<Rightarrow> error + 'r list" where
  "result_rows res = (case res of Inl e \<Rightarrow> Inl e | Inr (rows, vs) \<Rightarrow> Inr rows)"

definition result_vehicles :: "error + ('r list \<times> vehicle list) \<Rightarrow> error + vehicle list" where
  "result_vehicles res = (case res of Inl e \<Rightarrow> Inl e | Inr (rows, vs) \<Rightarrow> Inr vs)"

text \<open>The DAM and the IDM power of a schedule entry (zero for a missing component).\<close>

definition entry_dam_kw :: "schedule_entry option \<Rightarrow> rat" where
  "entry_dam_kw x = (case x of Some (DAM k) \<Rightarrow> k | Some (MIXED kd ki ty) \<Rightarrow> kd | Some (Kw k) \<Rightarrow> k | _ \<Rightarrow> 0)"

definition entry_idm_kw :: "schedule_entry option \<Rightarrow> rat" where
  "entry_idm_kw x = (case x of Some (IDM k ty) \<Rightarrow> k | Some (MIXED kd ki ty) \<Rightarrow> ki | _ \<Rightarrow> 0)"

definition result_schedule :: "error + ('r list \<times> vehicle list) \<Rightarrow> nat \<Rightarrow> int \<Rightarrow> schedule_entry option" where
  "result_schedule res j t = (case res of Inl e \<Rightarrow> None | Inr (rows, vs) \<Rightarrow> charging_schedule (vs ! j) t)"

section \<open>The demand projection in the words of the specification\<close>

text \<open>
  The definitions of this section follow the specification, not the source; the source's
  phase 1 is compared with them in the section on the demand projection.
  \<^item> \<open>stay_slots\<close>: the slots of the grid that lie in the vehicle's stay
    \<open>[arrival_time, departure_time)\<close>, in chronological order; \<open>ranked_slots\<close>: their times,
    ranked by ascending DAM price with a stable sort.
  \<^item> \<open>greedy_demand\<close>: the slots are consumed in the ranked order until the energy deficit
    is exhausted or the slots run out, and the demand of a slot is
    \<open>min(max_charge_kw, remaining_deficit / 0.25 h)\<close> in kW.
  \<^item> \<open>vehicle_demand\<close>: a vehicle is listed in a slot when it requires charge there, that
    is when its demand in the slot is positive. With a positive \<open>max_charge_kw\<close> that is
    every slot the greedy rule consumes.
  \<^item> \<open>record_demand\<close> books a demand in the slot's needs, and \<open>projected_demand\<close> does so
    for every vehicle of the fleet, starting from the empty needs of the grid.
\<close>

definition stay_slots :: "opt_row list \<Rightarrow> vehicle \<Rightarrow> opt_row list" where
  "stay_slots optimized v = [r \<leftarrow> optimized. arrival_time v \<le> Time r \<and> Time r < departure_time v]"

definition ranked_slots :: "opt_row list \<Rightarrow> vehicle \<Rightarrow> int list" where
  "ranked_slots optimized v = map Time (sort_key dam_price (stay_slots optimized v))"

fun greedy_demand :: "rat \<Rightarrow> rat \<Rightarrow> int list \<Rightarrow> (int \<times> rat) list" where
  "greedy_demand mx deficit [] = []"
| "greedy_demand mx deficit (t # ts) =
     (if deficit \<le> 0 then []
      else (t, min mx (deficit / (1/4)))
             # greedy_demand mx (deficit - min mx (deficit / (1/4)) * (1/4)) ts)"

definition vehicle_demand :: "opt_row list \<Rightarrow> vehicle \<Rightarrow> (int \<times> rat) list" where
  "vehicle_demand optimized v =
     [tp \<leftarrow> greedy_demand (max_charge_kw v) ((target_soc v - return_soc v) * capacity_kwh v)
              (ranked_slots optimized v). 0 < snd tp]"

definition record_demand :: "nat \<Rightarrow> (int \<times> slot_needs) list \<Rightarrow> int \<times> rat \<Rightarrow> (int \<times> slot_needs) list" where
  "record_demand j tsn tp = record_need tsn (fst tp) j (snd tp * (1/4)) (snd tp)"

definition projected_demand :: "opt_row list \<Rightarrow> vehicle list \<Rightarrow> (int \<times> slot_needs) list" where
  "projected_demand optimized vs =
     foldl (\<lambda>tsn j. foldl (record_demand j) tsn (vehicle_demand optimized (vs ! j)))
       (init_time_slot_needs (map Time optimized)) [0 ..< length vs]"

section \<open>The vehicles slot by slot\<close>

text \<open>
  \<open>phase1_state\<close> is the state of \<open>optimized_strategy\<close> when its loop over the slots
  begins: the priced frame, the needs of phase 1 and the reset vehicles (lemma
  \<open>optimized_strategy_phase2\<close> shows that the strategy is that loop run from this state).
  \<open>phase2_trace\<close> follows the recursion of \<open>phase2\<close> and keeps the fleet before the first
  slot and after every slot; \<open>soc_history\<close> is that sequence for a whole run, and
  \<open>history_socs\<close> reads one vehicle's \<open>current_soc\<close> along it.
\<close>

definition phase1_state ::
  "(int \<times> rat) list \<Rightarrow> (int \<times> rat) list \<Rightarrow> (int \<times> rat) list \<Rightarrow> vehicle list \<Rightarrow> int \<Rightarrow> int option \<Rightarrow>
   error + (opt_row list \<times> (int \<times> slot_needs) list \<times> vehicle list)" where
  "phase1_state dam_prices idm_15_prices idm_60_prices vs simulation_start simulation_end =
     (let end_time = resolve_end simulation_start simulation_end in
      case opt_schedule_times simulation_start end_time of
        Inl e \<Rightarrow> Inl e
      | Inr schedule_times \<Rightarrow>
          (let eligible_vehicles = get_eligible_vehicles vs simulation_start end_time in
           case load_price_data dam_prices idm_15_prices idm_60_prices (map opt_empty_row schedule_times) of
             Inl e \<Rightarrow> Inl e
           | Inr (optimized, msgs) \<Rightarrow>
               (let vs1 = reset_eligible eligible_vehicles vs
                in Inr (optimized,
                        phase1 optimized vs1 eligible_vehicles (init_time_slot_needs schedule_times),
                        vs1))))"

fun phase2_trace ::
  "rat \<Rightarrow> opt_row list \<Rightarrow> (int \<times> slot_needs) list \<Rightarrow> vehicle list \<Rightarrow> vehicle list list" where
  "phase2_trace DAM_ALLOCATION (row # rows) (tn # tsn) vs =
     vs # phase2_trace DAM_ALLOCATION rows tsn (snd (allocate_slot DAM_ALLOCATION row tn vs))"
| "phase2_trace DAM_ALLOCATION rows tsn vs = [vs]"

definition soc_history ::
  "(int \<times> rat) list \<Rightarrow> (int \<times> rat) list \<Rightarrow> (int \<times> rat) list \<Rightarrow> vehicle list \<Rightarrow> int \<Rightarrow> int option \<Rightarrow> rat \<Rightarrow>
   error + vehicle list list" where
  "soc_history dam_prices idm_15_prices idm_60_prices vs simulation_start simulation_end DAM_ALLOCATION =
     (case phase1_state dam_prices idm_15_prices idm_60_prices vs simulation_start simulation_end of
        Inl e \<Rightarrow> Inl e
      | Inr (optimized, tsn, vs1) \<Rightarrow> Inr (phase2_trace DAM_ALLOCATION optimized tsn vs1))"

definition history_socs :: "error + vehicle list list \<Rightarrow> nat \<Rightarrow> error + rat list" where
  "history_socs res j = (case res of Inl e \<Rightarrow> Inl e | Inr hist \<Rightarrow> Inr (map (\<lambda>vs. current_soc (vs ! j)) hist))"

text \<open>The needs of the slots and the priced frame in a \<open>phase1_state\<close>, and the vehicles
  named by a slot.\<close>

definition slot_vehicles :: "int \<times> slot_needs \<Rightarrow> nat list" where
  "slot_vehicles tn = map vehicle (vehicles (snd tn))"

definition state_needs ::
  "error + (opt_row list \<times> (int \<times> slot_needs) list \<times> vehicle list) \<Rightarrow> error + (int \<times> slot_needs) list" where
  "state_needs res = (case res of Inl e \<Rightarrow> Inl e | Inr (optimized, tsn, vs1) \<Rightarrow> Inr tsn)"

definition state_frame ::
  "error + (opt_row list \<times> (int \<times> slot_needs) list \<times> vehicle list) \<Rightarrow> error + opt_row list" where
  "state_frame res = (case res of Inl e \<Rightarrow> Inl e | Inr (optimized, tsn, vs1) \<Rightarrow> Inr optimized)"

section \<open>The pass in double precision\<close>

text \<open>
  Python computes with IEEE 754 binary64 numbers: the result of \<open>+\<close>, \<open>-\<close>, \<open>*\<close> and \<open>/\<close> is
  the exact result rounded to the nearest double, a tie going to the double whose last
  bit is zero. \<open>round_double\<close> is that rounding on the rationals: for \<open>x = a / b\<close> with
  \<open>2 ^ k \<le> |x| < 2 ^ (k + 1)\<close> (\<open>binade\<close> computes \<open>k\<close> from the bit lengths of \<open>a\<close> and \<open>b\<close>)
  the doubles around \<open>x\<close> are the multiples of \<open>2 ^ (k - 52)\<close>, and \<open>|x|\<close> is rounded to the
  nearest of them. The range of the exponent is not bounded: overflow and subnormal
  numbers do not occur in the computations below.
\<close>

function bit_length :: "int \<Rightarrow> nat" where
  "bit_length n = (if n \<le> 0 then 0 else Suc (bit_length (n div 2)))"
  by pat_completeness auto
termination by (relation "measure nat") auto

declare bit_length.simps [simp del]

definition round_half_even :: "int \<Rightarrow> int \<Rightarrow> int" where
  "round_half_even n d =
     (let q = n div d; r = n mod d
      in if 2 * r < d then q else if d < 2 * r then q + 1 else if even q then q else q + 1)"

definition pow2 :: "int \<Rightarrow> rat" where
  "pow2 k = (if 0 \<le> k then of_int (2 ^ nat k) else 1 / of_int (2 ^ nat (- k)))"

definition binade :: "int \<Rightarrow> int \<Rightarrow> int" where
  "binade a b =
     (let k = int (bit_length a) - int (bit_length b)
      in if (if 0 \<le> k then b * 2 ^ nat k \<le> a else b \<le> a * 2 ^ nat (- k)) then k else k - 1)"

definition round_double :: "rat \<Rightarrow> rat" where
  "round_double x =
     (let (a, b) = quotient_of x in
      if a = 0 then 0
      else
        (let e = binade \<bar>a\<bar> b - 52;
             m = (if e < 0 then round_half_even (\<bar>a\<bar> * 2 ^ nat (- e)) b
                  else round_half_even \<bar>a\<bar> (b * 2 ^ nat e))
         in of_int (sgn a * m) * pow2 e))"

text \<open>
  The part of \<open>optimized_strategy\<close> that determines the vehicles, with a rounding \<open>rnd\<close>
  applied to the result of every floating-point operation of the source, in the
  source's order: the needs of phase 1 (lines 2814 to 2855), the ratios of phase 2 and
  the update of phase 3 (lines 2866 to 2949). Comparisons, \<open>min\<close>, \<open>int()\<close> and the
  multiplication of the Python integer \<open>int(...)\<close> by 100 are exact. The times and the
  prices of the frame are not computed with, so the frame is the one of the exact model.
  With the identity for \<open>rnd\<close> these are the definitions of the exact model (lemma
  \<open>optimized_strategy_fp_exact\<close>); with \<open>round_double\<close> they compute what the source
  computes.
\<close>

definition add_need_fp :: "(rat \<Rightarrow> rat) \<Rightarrow> nat \<Rightarrow> rat \<Rightarrow> rat \<Rightarrow> slot_needs \<Rightarrow> slot_needs" where
  "add_need_fp rnd j e p n =
     n\<lparr>vehicles := vehicles n @ [\<lparr>vehicle = j, energy_kwh = e, power_kw = p\<rparr>],
       total_energy_kwh := rnd (total_energy_kwh n + e),
       total_power_kw := rnd (total_power_kw n + p)\<rparr>"

definition record_need_fp ::
  "(rat \<Rightarrow> rat) \<Rightarrow> (int \<times> slot_needs) list \<Rightarrow> int \<Rightarrow> nat \<Rightarrow> rat \<Rightarrow> rat \<Rightarrow> (int \<times> slot_needs) list" where
  "record_need_fp rnd tsn time j e p =
     map (\<lambda>tn. if fst tn = time then (fst tn, add_need_fp rnd j e p (snd tn)) else tn) tsn"

fun distribute_energy_fp ::
  "(rat \<Rightarrow> rat) \<Rightarrow> nat \<Rightarrow> rat \<Rightarrow> rat \<Rightarrow> (int \<times> rat) list \<Rightarrow> (int \<times> slot_needs) list \<Rightarrow>
   (int \<times> slot_needs) list" where
  "distribute_energy_fp rnd j mx remaining_energy_kwh [] tsn = tsn"
| "distribute_energy_fp rnd j mx remaining_energy_kwh (tp # time_prices) tsn =
     (if remaining_energy_kwh \<le> 0 then tsn
      else
        (let max_energy_per_period = rnd (mx * (1/4));
             charge_amount_kwh = min max_energy_per_period remaining_energy_kwh;
             charge_power_kw = rnd (charge_amount_kwh / (1/4))
         in if charge_amount_kwh > 0
            then distribute_energy_fp rnd j mx (rnd (remaining_energy_kwh - charge_amount_kwh)) time_prices
                   (record_need_fp rnd tsn (fst tp) j charge_amount_kwh charge_power_kw)
            else distribute_energy_fp rnd j mx remaining_energy_kwh time_prices tsn))"

definition vehicle_needs_fp ::
  "(rat \<Rightarrow> rat) \<Rightarrow> opt_row list \<Rightarrow> nat \<Rightarrow> vehicle \<Rightarrow> (int \<times> slot_needs) list \<Rightarrow> (int \<times> slot_needs) list" where
  "vehicle_needs_fp rnd optimized j v tsn =
     (let total_energy_needed_kwh = rnd (rnd (target_soc v - return_soc v) * capacity_kwh v) in
      if total_energy_needed_kwh \<le> 0 then tsn
      else if time_prices_of optimized v = [] then tsn
      else distribute_energy_fp rnd j (max_charge_kw v) total_energy_needed_kwh
             (sort_key snd (time_prices_of optimized v)) tsn)"

fun phase1_fp ::
  "(rat \<Rightarrow> rat) \<Rightarrow> opt_row list \<Rightarrow> vehicle list \<Rightarrow> nat list \<Rightarrow> (int \<times> slot_needs) list \<Rightarrow>
   (int \<times> slot_needs) list" where
  "phase1_fp rnd optimized vs [] tsn = tsn"
| "phase1_fp rnd optimized vs (j # js) tsn =
     phase1_fp rnd optimized vs js (vehicle_needs_fp rnd optimized j (vs ! j) tsn)"

definition idm_actual_kw_fp :: "(rat \<Rightarrow> rat) \<Rightarrow> rat \<Rightarrow> rat \<Rightarrow> int" where
  "idm_actual_kw_fp rnd DAM_ALLOCATION d =
     (let dam_target_kw = rnd (d * DAM_ALLOCATION);
          idm_target_kw = rnd (d - dam_target_kw)
      in py_int (rnd (idm_target_kw / 100)) * 100)"

definition dam_actual_kw_fp :: "(rat \<Rightarrow> rat) \<Rightarrow> rat \<Rightarrow> rat \<Rightarrow> rat" where
  "dam_actual_kw_fp rnd DAM_ALLOCATION d = rnd (d - of_int (idm_actual_kw_fp rnd DAM_ALLOCATION d))"

definition charge_vehicle_fp ::
  "(rat \<Rightarrow> rat) \<Rightarrow> int \<Rightarrow> bool \<Rightarrow> rat \<Rightarrow> rat \<Rightarrow> rat \<Rightarrow> vehicle \<Rightarrow> vehicle" where
  "charge_vehicle_fp rnd time use15 idm_ratio dam_ratio p v =
     (let vehicle_idm_kw = rnd (p * idm_ratio);
          vehicle_dam_kw = rnd (p * dam_ratio);
          idm_energy_kwh = rnd (vehicle_idm_kw * (1/4));
          dam_energy_kwh = rnd (vehicle_dam_kw * (1/4));
          total_energy = rnd (idm_energy_kwh + dam_energy_kwh);
          v1 = v\<lparr>current_soc := rnd (current_soc v + rnd (total_energy / capacity_kwh v))\<rparr>;
          ty = (if use15 then Min15 else Min60)
      in if vehicle_idm_kw > 0 \<and> vehicle_dam_kw > 0
         then v1\<lparr>charging_schedule := (charging_schedule v1)(time \<mapsto> MIXED vehicle_dam_kw vehicle_idm_kw ty)\<rparr>
         else if vehicle_idm_kw > 0
         then v1\<lparr>charging_schedule := (charging_schedule v1)(time \<mapsto> IDM vehicle_idm_kw ty)\<rparr>
         else if vehicle_dam_kw > 0
         then v1\<lparr>charging_schedule := (charging_schedule v1)(time \<mapsto> DAM vehicle_dam_kw)\<rparr>
         else v1)"

fun distribute_back_fp ::
  "(rat \<Rightarrow> rat) \<Rightarrow> int \<Rightarrow> bool \<Rightarrow> rat \<Rightarrow> rat \<Rightarrow> need list \<Rightarrow> vehicle list \<Rightarrow> vehicle list" where
  "distribute_back_fp rnd time use15 idm_ratio dam_ratio [] vs = vs"
| "distribute_back_fp rnd time use15 idm_ratio dam_ratio (vd # vds) vs =
     distribute_back_fp rnd time use15 idm_ratio dam_ratio vds
       (vs[vehicle vd := charge_vehicle_fp rnd time use15 idm_ratio dam_ratio (power_kw vd) (vs ! vehicle vd)])"

definition update_vehicles_fp ::
  "(rat \<Rightarrow> rat) \<Rightarrow> rat \<Rightarrow> opt_row \<Rightarrow> int \<Rightarrow> slot_needs \<Rightarrow> vehicle list \<Rightarrow> vehicle list" where
  "update_vehicles_fp rnd DAM_ALLOCATION row time sn vs =
     (let d = total_power_kw sn in
      if d > 0
      then distribute_back_fp rnd time (use_15_min_idm row)
             (rnd (of_int (idm_actual_kw_fp rnd DAM_ALLOCATION d) / d))
             (rnd (dam_actual_kw_fp rnd DAM_ALLOCATION d / d))
             (vehicles sn) vs
      else vs)"

fun phase2_fp ::
  "(rat \<Rightarrow> rat) \<Rightarrow> rat \<Rightarrow> opt_row list \<Rightarrow> (int \<times> slot_needs) list \<Rightarrow> vehicle list \<Rightarrow> vehicle list" where
  "phase2_fp rnd DAM_ALLOCATION (row # rows) (tn # tsn) vs =
     phase2_fp rnd DAM_ALLOCATION rows tsn
       (if vehicles (snd tn) = [] then vs
        else update_vehicles_fp rnd DAM_ALLOCATION row (fst tn) (snd tn) vs)"
| "phase2_fp rnd DAM_ALLOCATION rows tsn vs = vs"

text \<open>\<open>self.vehicles\<close> after \<open>optimized_strategy\<close>, computed with the rounding \<open>rnd\<close>.\<close>

definition optimized_strategy_fp ::
  "(rat \<Rightarrow> rat) \<Rightarrow> (int \<times> rat) list \<Rightarrow> (int \<times> rat) list \<Rightarrow> (int \<times> rat) list \<Rightarrow> vehicle list \<Rightarrow>
   int \<Rightarrow> int option \<Rightarrow> rat \<Rightarrow> error + vehicle list" where
  "optimized_strategy_fp rnd dam_prices idm_15_prices idm_60_prices vs simulation_start simulation_end DAM_ALLOCATION =
     (let end_time = resolve_end simulation_start simulation_end in
      case opt_schedule_times simulation_start end_time of
        Inl e \<Rightarrow> Inl e
      | Inr schedule_times \<Rightarrow>
          (let eligible_vehicles = get_eligible_vehicles vs simulation_start end_time in
           case load_price_data dam_prices idm_15_prices idm_60_prices (map opt_empty_row schedule_times) of
             Inl e \<Rightarrow> Inl e
           | Inr (optimized, msgs) \<Rightarrow>
               (let vs1 = reset_eligible eligible_vehicles vs;
                    tsn = phase1_fp rnd optimized vs1 eligible_vehicles (init_time_slot_needs schedule_times)
                in Inr (phase2_fp rnd DAM_ALLOCATION optimized tsn vs1))))"

text \<open>The final \<open>current_soc\<close> and the \<open>target_soc\<close> of every vehicle of a result.\<close>

definition final_socs :: "error + vehicle list \<Rightarrow> error + (rat \<times> rat) list" where
  "final_socs res =
     (case res of Inl e \<Rightarrow> Inl e | Inr vs \<Rightarrow> Inr (map (\<lambda>v. (current_soc v, target_soc v)) vs))"

section \<open>Notions used in the proofs\<close>

text \<open>The energy (kWh) that the entries of a slot, and of all slots, book for vehicle \<open>j\<close>.\<close>

definition booked :: "nat \<Rightarrow> need list \<Rightarrow> rat" where
  "booked j es = sum_list (map (\<lambda>e. if vehicle e = j then power_kw e * (1/4) else 0) es)"

definition pending :: "nat \<Rightarrow> (int \<times> slot_needs) list \<Rightarrow> rat" where
  "pending j tsn = sum_list (map (\<lambda>tn. booked j (vehicles (snd tn))) tsn)"


text \<open>
  Two views of a vehicle: \<open>static\<close> forgets the two fields a strategy run writes
  (\<open>current_soc\<close> and \<open>charging_schedule\<close>), \<open>forget_min_charge\<close> forgets the stored minimum
  charging power.
\<close>

definition static :: "vehicle \<Rightarrow> vehicle" where
  "static v = v\<lparr>current_soc := 0, charging_schedule := Map.empty\<rparr>"

definition forget_min_charge :: "vehicle \<Rightarrow> vehicle" where
  "forget_min_charge v = v\<lparr>min_charge_kw := 0\<rparr>"


text \<open>A row whose power columns still hold their initial zeros.\<close>

definition blank :: "opt_row \<Rightarrow> bool" where
  "blank row \<longleftrightarrow> total_charge_kw row = 0 \<and> dam_charge_kw row = 0 \<and> idm_charge_kw row = 0
     \<and> idm_15_charge_kw row = 0 \<and> idm_60_charge_kw row = 0"

text \<open>The bookkeeping of one slot's needs: the total is the sum of the entries, and every
  entry has a positive power.\<close>

definition sn_ok :: "slot_needs \<Rightarrow> bool" where
  "sn_ok sn \<longleftrightarrow> total_power_kw sn = sum_list (map power_kw (vehicles sn))
     \<and> list_all (\<lambda>e. power_kw e > 0) (vehicles sn)"

section \<open>Example data\<close>

text \<open>Five vehicles with a 50 kW charger each, one 15-minute slot: aggregate demand 250 kW.\<close>

definition ex_vehicle :: vehicle where
  "ex_vehicle =
     \<lparr>vid = ''0_evening_0'', day = 0, arrival_time = 0, departure_time = 3600,
      return_soc = 1/5, target_soc = 9/10, current_soc = 1/5, capacity_kwh = 100,
      min_charge_kw = 3/2, max_charge_kw = 50, charging_schedule = Map.empty,
      energy_needed_kwh = 70, charging_hours = 1\<rparr>"

definition ex_fleet :: "vehicle list" where
  "ex_fleet = [ex_vehicle, ex_vehicle, ex_vehicle, ex_vehicle, ex_vehicle]"

definition ex_row :: opt_row where
  "ex_row = \<lparr>Time = 0, total_charge_kw = 250, dam_charge_kw = 150,
          idm_charge_kw = 100, idm_15_charge_kw = 100, idm_60_charge_kw = 0,
          dam_price = 80, idm_price = 60, idm_15_price = 60,
          idm_60_price = 70, dam_cost = 3, idm_cost = 3 / 2,
          idm_15_cost = 3 / 2, idm_60_cost = 0, total_ev_charging = 5,
          total_ev_charging_dam = 5, total_ev_charging_idm = 5,
          total_ev_charging_idm_15 = 5, total_ev_charging_idm_60 = 0\<rparr>"

text \<open>The same slot when the 60-minute IDM price is the lower one.\<close>

definition ex_row_60 :: opt_row where
  "ex_row_60 = \<lparr>Time = 0, total_charge_kw = 250, dam_charge_kw = 150,
          idm_charge_kw = 100, idm_15_charge_kw = 0, idm_60_charge_kw = 100,
          dam_price = 80, idm_price = 70, idm_15_price = 75,
          idm_60_price = 70, dam_cost = 3, idm_cost = 7 / 4,
          idm_15_cost = 0, idm_60_cost = 7 / 4, total_ev_charging = 5,
          total_ev_charging_dam = 5, total_ev_charging_idm = 5,
          total_ev_charging_idm_15 = 0, total_ev_charging_idm_60 = 5\<rparr>"

text \<open>A one-hour baseline frame without any charging.\<close>

definition ex_bl_row :: bl_row where
  "ex_bl_row = \<lparr>bl_Time = 0, bl_total_charge_kw = 0, bl_dam_price = 80, bl_dam_cost = 0,
                bl_total_ev_charging = 0\<rparr>"

text \<open>The slot again, with no IDM-15 quote inside it: the next IDM-15 row starts at 900.\<close>

definition ex_priced_gap :: opt_row where
  "ex_priced_gap = (opt_empty_row 0)\<lparr>dam_price := 80, idm_15_price := 80, idm_60_price := 70, idm_price := 70\<rparr>"

definition ex_row_gap :: opt_row where
  "ex_row_gap = ex_row_60\<lparr>idm_15_price := 80\<rparr>"

text \<open>The needs of that slot as phase 1 leaves them.\<close>

definition ex_slot :: slot_needs where
  "ex_slot = \<lparr>vehicles = map (\<lambda>j. \<lparr>vehicle = j, energy_kwh = 25/2, power_kw = 50\<rparr>) [0, 1, 2, 3, 4],
              total_energy_kwh = 125/2, total_power_kw = 250\<rparr>"

text \<open>Two hours of priced slots (80 in the first hour, 70 in the second) and a vehicle that
  stays from 900 to 5400 and needs 8 kWh.\<close>

definition ex_rows3 :: "opt_row list" where
  "ex_rows3 = map (\<lambda>tp. (opt_empty_row (fst tp))\<lparr>dam_price := snd tp\<rparr>)
     [(0, 80), (900, 80), (1800, 80), (2700, 80), (3600, 70), (4500, 70), (5400, 70), (6300, 70)]"

definition ex_vehicle3 :: vehicle where
  "ex_vehicle3 =
     \<lparr>vid = ''0_evening_1'', day = 0, arrival_time = 900, departure_time = 5400,
      return_soc = 7/10, target_soc = 9/10, current_soc = 7/10, capacity_kwh = 40,
      min_charge_kw = 3/2, max_charge_kw = 11, charging_schedule = Map.empty,
      energy_needed_kwh = 8, charging_hours = 5/4\<rparr>"

text \<open>A vehicle that needs a quarter of a kWh, and the baseline frame of two hours for the
  fleet of five.\<close>

definition ex_vehicle_small :: vehicle where
  "ex_vehicle_small =
     \<lparr>vid = ''0_evening_2'', day = 0, arrival_time = 0, departure_time = 3600,
      return_soc = 179/200, target_soc = 9/10, current_soc = 179/200, capacity_kwh = 50,
      min_charge_kw = 3/2, max_charge_kw = 11, charging_schedule = Map.empty,
      energy_needed_kwh = 1/4, charging_hours = 1\<rparr>"

definition ex_bl_rows :: "bl_row list" where
  "ex_bl_rows =
     [\<lparr>bl_Time = 0, bl_total_charge_kw = 250, bl_dam_price = 80, bl_dam_cost = 20, bl_total_ev_charging = 5\<rparr>,
      \<lparr>bl_Time = 3600, bl_total_charge_kw = 0, bl_dam_price = 70, bl_dam_cost = 0, bl_total_ev_charging = 0\<rparr>]"

text \<open>
  A fleet for the two-hour grid: the vehicle above, the same vehicle without an energy
  need, one that arrives when the horizon ends, and one that cannot charge. The frame and
  the needs are those the optimized strategy computes for this fleet (lemmas
  \<open>ex3_state_frame\<close> and \<open>ex3_state_needs\<close>).
\<close>

definition ex_fleet3 :: "vehicle list" where
  "ex_fleet3 = [ex_vehicle3, ex_vehicle3\<lparr>target_soc := 7/10\<rparr>,
                ex_vehicle3\<lparr>arrival_time := 7200, departure_time := 9000\<rparr>,
                ex_vehicle3\<lparr>max_charge_kw := 0\<rparr>]"

definition ex_frame3 :: "opt_row list" where
  "ex_frame3 = map (\<lambda>tp. (opt_empty_row (fst tp))\<lparr>dam_price := snd tp, idm_15_price := snd tp,
                                  idm_60_price := snd tp, idm_price := snd tp\<rparr>)
     [(0, 80), (900, 80), (1800, 80), (2700, 80), (3600, 70), (4500, 70), (5400, 70), (6300, 70)]"

definition ex_needs3 :: "(int \<times> slot_needs) list" where
  "ex_needs3 =
     [(0, \<lparr>vehicles = [], total_energy_kwh = 0, total_power_kw = 0\<rparr>),
      (900, \<lparr>vehicles = [\<lparr>vehicle = 0, energy_kwh = 5/2, power_kw = 10\<rparr>],
             total_energy_kwh = 5/2, total_power_kw = 10\<rparr>),
      (1800, \<lparr>vehicles = [], total_energy_kwh = 0, total_power_kw = 0\<rparr>),
      (2700, \<lparr>vehicles = [], total_energy_kwh = 0, total_power_kw = 0\<rparr>),
      (3600, \<lparr>vehicles = [\<lparr>vehicle = 0, energy_kwh = 11/4, power_kw = 11\<rparr>],
              total_energy_kwh = 11/4, total_power_kw = 11\<rparr>),
      (4500, \<lparr>vehicles = [\<lparr>vehicle = 0, energy_kwh = 11/4, power_kw = 11\<rparr>],
              total_energy_kwh = 11/4, total_power_kw = 11\<rparr>),
      (5400, \<lparr>vehicles = [], total_energy_kwh = 0, total_power_kw = 0\<rparr>),
      (6300, \<lparr>vehicles = [], total_energy_kwh = 0, total_power_kw = 0\<rparr>)]"

text \<open>
  A vehicle that stays during the second of the two hours, and the frames the two
  strategies return for it: the baseline has no slot for it (its last slot starts at
  3600, where the vehicle's charging window is cut), the optimized strategy charges it
  from DAM in three slots.
\<close>

definition ex_vehicle_late :: vehicle where
  "ex_vehicle_late = ex_vehicle3\<lparr>arrival_time := 3600, departure_time := 7200\<rparr>"

definition ex_bl_rows_late :: "bl_row list" where
  "ex_bl_rows_late =
     [\<lparr>bl_Time = 0, bl_total_charge_kw = 0, bl_dam_price = 80, bl_dam_cost = 0, bl_total_ev_charging = 0\<rparr>,
      \<lparr>bl_Time = 3600, bl_total_charge_kw = 0, bl_dam_price = 70, bl_dam_cost = 0, bl_total_ev_charging = 0\<rparr>]"

definition ex_opt_rows_late :: "opt_row list" where
  "ex_opt_rows_late =
     map (\<lambda>(t, p, kw, n). calc_costs ((opt_empty_row t)
            \<lparr>total_charge_kw := kw, dam_charge_kw := kw, dam_price := p, idm_price := p,
             idm_15_price := p, idm_60_price := p, total_ev_charging := n, total_ev_charging_dam := n\<rparr>))
       [(0, 80, 0, 0), (900, 80, 0, 0), (1800, 80, 0, 0), (2700, 80, 0, 0),
        (3600, 70, 11, 1), (4500, 70, 11, 1), (5400, 70, 10, 1), (6300, 70, 0, 0)]"

text \<open>
  A vehicle with the parameters of \<open>main\<close> (47 kWh, 11 kW, target 0.9) that returns with
  a state of charge of 0.4 and stays three hours. Its \<open>target_soc\<close> and \<open>return_soc\<close> are
  the doubles that Python reads for \<open>0.9\<close> and \<open>0.4\<close>, and \<open>ex_allocation\<close> is the double of
  the default \<open>DAM_ALLOCATION = 0.05\<close> (lemma \<open>ex_doubles\<close>).
\<close>

definition ex_vehicle_dbl :: vehicle where
  "ex_vehicle_dbl =
     \<lparr>vid = ''0_evening_3'', day = 0, arrival_time = 0, departure_time = 10800,
      return_soc = 3602879701896397 / 9007199254740992,
      target_soc = 8106479329266893 / 9007199254740992,
      current_soc = 3602879701896397 / 9007199254740992, capacity_kwh = 47,
      min_charge_kw = 3/2, max_charge_kw = 11, charging_schedule = Map.empty,
      energy_needed_kwh = 47/2, charging_hours = 3\<rparr>"

definition ex_allocation :: rat where
  "ex_allocation = 3602879701896397 / 72057594037927936"

section \<open>Rows of the optimized schedule\<close>

lemma blank_empty_row: "blank (opt_empty_row t)"
  by (simp add: blank_def opt_empty_row_def)

lemma load_price_row_blank:
  "load_price_row d a b row = Inr (row', m) \<Longrightarrow> blank row \<Longrightarrow> blank row' \<and> Time row' = Time row"
  by (auto simp: load_price_row_def Let_def blank_def split: sum.splits)

lemma load_price_data_blank:
  "load_price_data d a b rows0 = Inr (rows, m) \<Longrightarrow> list_all blank rows0 \<Longrightarrow>
     list_all blank rows \<and> map Time rows = map Time rows0"
proof (induction rows0 arbitrary: rows m)
  case Nil
  then show ?case by simp
next
  case (Cons row rows0)
  then show ?case
    by (auto split: sum.splits prod.splits dest: load_price_row_blank)
qed

lemma sn_ok_pos: "sn_ok sn \<Longrightarrow> vehicles sn \<noteq> [] \<Longrightarrow> 0 < total_power_kw sn"
proof -
  assume ok: "sn_ok sn" and ne: "vehicles sn \<noteq> []"
  have "\<And>es :: need list. es \<noteq> [] \<Longrightarrow> list_all (\<lambda>e. power_kw e > 0) es \<Longrightarrow> 0 < sum_list (map power_kw es)"
  proof -
    fix es :: "need list"
    show "es \<noteq> [] \<Longrightarrow> list_all (\<lambda>e. power_kw e > 0) es \<Longrightarrow> 0 < sum_list (map power_kw es)"
    proof (induction es)
      case Nil then show ?case by simp
    next
      case (Cons e es)
      then show ?case by (cases es) (auto intro: add_pos_pos)
    qed
  qed
  with ok ne show ?thesis by (simp add: sn_ok_def)
qed

lemma sn_ok_add_need: "sn_ok sn \<Longrightarrow> 0 < p \<Longrightarrow> sn_ok (add_need j e p sn)"
  by (simp add: sn_ok_def add_need_def)

lemma record_need_ok:
  "list_all (\<lambda>tn. sn_ok (snd tn)) tsn \<Longrightarrow> 0 < p \<Longrightarrow> list_all (\<lambda>tn. sn_ok (snd tn)) (record_need tsn t j e p)"
  by (induction tsn) (auto simp: record_need_def sn_ok_add_need)

lemma record_need_times: "map fst (record_need tsn t j e p) = map fst tsn"
  by (induction tsn) (auto simp: record_need_def)

lemma distribute_energy_Cons:
  "distribute_energy j mx rem (tp # tps) tsn =
     (if rem \<le> 0 then tsn
      else if min (mx * (1/4)) rem > 0
           then distribute_energy j mx (rem - min (mx * (1/4)) rem) tps
                  (record_need tsn (fst tp) j (min (mx * (1/4)) rem) (min (mx * (1/4)) rem / (1/4)))
           else distribute_energy j mx rem tps tsn)"
  by (simp add: Let_def)

lemma distribute_energy_ok:
  "list_all (\<lambda>tn. sn_ok (snd tn)) tsn \<Longrightarrow> list_all (\<lambda>tn. sn_ok (snd tn)) (distribute_energy j mx rem tps tsn)"
proof (induction tps arbitrary: rem tsn)
  case Nil
  then show ?case by simp
next
  case (Cons tp tps)
  show ?case
    unfolding distribute_energy_Cons
    using Cons.prems by (auto intro!: Cons.IH record_need_ok)
qed

lemma distribute_energy_times: "map fst (distribute_energy j mx rem tps tsn) = map fst tsn"
proof (induction tps arbitrary: rem tsn)
  case Nil
  then show ?case by simp
next
  case (Cons tp tps)
  show ?case
    unfolding distribute_energy_Cons
    by (simp add: Cons.IH record_need_times)
qed

lemma vehicle_needs_ok:
  "list_all (\<lambda>tn. sn_ok (snd tn)) tsn \<Longrightarrow> list_all (\<lambda>tn. sn_ok (snd tn)) (vehicle_needs optimized j v tsn)"
  by (simp add: vehicle_needs_def Let_def distribute_energy_ok)

lemma vehicle_needs_times: "map fst (vehicle_needs optimized j v tsn) = map fst tsn"
  by (simp add: vehicle_needs_def Let_def distribute_energy_times)

lemma phase1_ok:
  "list_all (\<lambda>tn. sn_ok (snd tn)) tsn \<Longrightarrow> list_all (\<lambda>tn. sn_ok (snd tn)) (phase1 optimized vs js tsn)"
  by (induction js arbitrary: tsn) (auto simp: vehicle_needs_ok)

lemma phase1_times: "map fst (phase1 optimized vs js tsn) = map fst tsn"
  by (induction js arbitrary: tsn) (auto simp: vehicle_needs_times)

lemma init_needs_ok: "list_all (\<lambda>tn. sn_ok (snd tn)) (init_time_slot_needs ts)"
  by (induction ts) (auto simp: init_time_slot_needs_def sn_ok_def)

lemma init_needs_times: "map fst (init_time_slot_needs ts) = ts"
  by (induction ts) (auto simp: init_time_slot_needs_def)

lemma phase2_rows:
  "r' \<in> set (fst (phase2 A rows tsn vs)) \<Longrightarrow>
     r' \<in> set rows \<or> (\<exists>row sn. row \<in> set rows \<and> sn \<in> snd ` set tsn \<and> vehicles sn \<noteq> [] \<and> r' = update_row A row sn)"
proof (induction A rows tsn vs rule: phase2.induct)
  case (1 A row rows tn tsn vs)
  show ?case
  proof (cases "r' = fst (allocate_slot A row tn vs)")
    case True
    show ?thesis
    proof (cases "vehicles (snd tn) = []")
      case True
      with \<open>r' = fst (allocate_slot A row tn vs)\<close> show ?thesis by (simp add: allocate_slot_def)
    next
      case False
      with \<open>r' = fst (allocate_slot A row tn vs)\<close> have "r' = update_row A row (snd tn)"
        by (simp add: allocate_slot_def)
      with False have "row \<in> set (row # rows) \<and> snd tn \<in> snd ` set (tn # tsn)
         \<and> vehicles (snd tn) \<noteq> [] \<and> r' = update_row A row (snd tn)" by simp
      then show ?thesis by blast
    qed
  next
    case False
    with "1.prems" have "r' \<in> set (fst (phase2 A rows tsn (snd (allocate_slot A row tn vs))))"
      by (auto simp: Let_def split: prod.splits)
    from "1.IH"[OF refl prod.collapse this]
    have "r' \<in> set rows \<or> (\<exists>row sn. row \<in> set rows \<and> sn \<in> snd ` set tsn \<and> vehicles sn \<noteq> [] \<and> r' = update_row A row sn)"
      .
    then show ?thesis by auto
  qed
qed auto


lemma calc_costs_fields [simp]:
  "Time (calc_costs r) = Time r"
  "total_charge_kw (calc_costs r) = total_charge_kw r"
  "dam_charge_kw (calc_costs r) = dam_charge_kw r"
  "idm_charge_kw (calc_costs r) = idm_charge_kw r"
  "idm_15_charge_kw (calc_costs r) = idm_15_charge_kw r"
  "idm_60_charge_kw (calc_costs r) = idm_60_charge_kw r"
  "dam_price (calc_costs r) = dam_price r"
  "idm_15_price (calc_costs r) = idm_15_price r"
  "idm_60_price (calc_costs r) = idm_60_price r"
  by (simp_all add: calc_costs_def Let_def)

lemma update_row_prices [simp]:
  "Time (update_row A row sn) = Time row"
  "dam_price (update_row A row sn) = dam_price row"
  "idm_15_price (update_row A row sn) = idm_15_price row"
  "idm_60_price (update_row A row sn) = idm_60_price row"
  by (simp_all add: update_row_def Let_def)

lemma update_row_total [simp]: "total_charge_kw (update_row A row sn) = total_power_kw sn"
  by (simp add: update_row_def Let_def)

lemma update_row_idm:
  assumes "blank row"
  shows "idm_charge_kw (update_row A row sn) = of_int (max 0 (idm_actual_kw A (total_power_kw sn)))"
    and "idm_15_charge_kw (update_row A row sn) =
           (if idm_15_price row \<le> idm_60_price row then idm_charge_kw (update_row A row sn) else 0)"
    and "idm_60_charge_kw (update_row A row sn) =
           (if idm_15_price row \<le> idm_60_price row then 0 else idm_charge_kw (update_row A row sn))"
  using assms by (simp_all add: update_row_def Let_def blank_def use_15_min_idm_def max_def)

lemma update_row_dam:
  assumes "blank row"
  shows "dam_charge_kw (update_row A row sn) = max 0 (dam_actual_kw A (total_power_kw sn))"
  using assms by (simp add: update_row_def Let_def blank_def max_def)

lemma idm_actual_floor:
  assumes "0 \<le> d" "A \<le> 1"
  shows "idm_actual_kw A d = \<lfloor>(d - d * A) / 100\<rfloor> * 100"
proof -
  have "d * A \<le> d * 1" using assms by (intro mult_left_mono) simp_all
  then have "0 \<le> (d - d * A) / 100" by simp
  then show ?thesis by (simp add: idm_actual_kw_def Let_def py_int_def)
qed

lemma idm_actual_bounds:
  assumes "0 \<le> d" "0 \<le> A" "A \<le> 1"
  shows "0 \<le> idm_actual_kw A d" and "of_int (idm_actual_kw A d) \<le> d"
proof -
  have le: "d * A \<le> d * 1" using assms by (intro mult_left_mono) simp_all
  have ge: "0 \<le> d * A" using assms by simp
  have nn: "0 \<le> (d - d * A) / 100" using le by simp
  have eq: "idm_actual_kw A d = \<lfloor>(d - d * A) / 100\<rfloor> * 100"
    using assms by (simp add: idm_actual_floor)
  from nn have "0 \<le> \<lfloor>(d - d * A) / 100\<rfloor>" by simp
  then show "0 \<le> idm_actual_kw A d" by (simp add: eq)
  have "of_int \<lfloor>(d - d * A) / 100\<rfloor> \<le> (d - d * A) / 100" by (rule of_int_floor_le)
  then have "(of_int (\<lfloor>(d - d * A) / 100\<rfloor> * 100) :: rat) \<le> d - d * A" by simp
  with ge show "of_int (idm_actual_kw A d) \<le> d" by (simp add: eq)
qed

lemma load_price_row_msgs: "load_price_row d a b row = Inr (row', m) \<Longrightarrow> m = []"
  by (auto simp: load_price_row_def Let_def split: sum.splits)

lemma load_price_data_rows:
  "load_price_data d a b rows0 = Inr (rows, m) \<Longrightarrow> row \<in> set rows \<Longrightarrow>
     \<exists>row0. row0 \<in> set rows0 \<and> load_price_row d a b row0 = Inr (row, [])"
proof (induction rows0 arbitrary: rows m)
  case Nil
  then show ?case by simp
next
  case (Cons r0 rows0)
  from Cons.prems(1) obtain r1 m1 rs m2 where
    a: "load_price_row d a b r0 = Inr (r1, m1)" and
    b: "load_price_data d a b rows0 = Inr (rs, m2)" and
    c: "rows = r1 # rs"
    by (auto split: sum.splits prod.splits)
  from a have m1: "m1 = []" by (rule load_price_row_msgs)
  from Cons.prems(2) c have "row = r1 \<or> row \<in> set rs" by auto
  then show ?case
  proof
    assume "row = r1"
    with a m1 show ?thesis by auto
  next
    assume "row \<in> set rs"
    from Cons.IH[OF b this] show ?thesis by auto
  qed
qed

lemma load_price_data_msgs: "load_price_data d a b rows0 = Inr (rows, m) \<Longrightarrow> m = []"
proof (induction rows0 arbitrary: rows m)
  case Nil
  then show ?case by simp
next
  case (Cons r0 rows0)
  then show ?case
    by (auto split: sum.splits prod.splits dest: load_price_row_msgs)
qed

lemma load_price_row_Time: "load_price_row d a b row = Inr (row', m) \<Longrightarrow> Time row' = Time row"
  by (auto simp: load_price_row_def Let_def split: sum.splits)

lemma optimized_strategy_priced_rows:
  assumes run: "optimized_strategy dam i15 i60 vs s e A = Inr (rows, vs')"
    and r: "r \<in> set rows"
  shows "\<exists>row. load_price_row dam i15 i60 (opt_empty_row (Time r)) = Inr (row, []) \<and>
           (r = calc_costs row \<or> (\<exists>sn. sn_ok sn \<and> vehicles sn \<noteq> [] \<and> r = calc_costs (update_row A row sn)))"
proof -
  from run obtain ts optimized msgs where
    ts: "opt_schedule_times s (resolve_end s e) = Inr ts" and
    ld: "load_price_data dam i15 i60 (map opt_empty_row ts) = Inr (optimized, msgs)" and
    rows: "rows = map calc_costs (fst (phase2 A optimized
              (phase1 optimized (reset_eligible (get_eligible_vehicles vs s (resolve_end s e)) vs)
                 (get_eligible_vehicles vs s (resolve_end s e)) (init_time_slot_needs ts))
              (reset_eligible (get_eligible_vehicles vs s (resolve_end s e)) vs)))"
    by (auto simp: optimized_strategy_def Let_def split: sum.splits prod.splits)
  let ?tsn = "phase1 optimized (reset_eligible (get_eligible_vehicles vs s (resolve_end s e)) vs)
                 (get_eligible_vehicles vs s (resolve_end s e)) (init_time_slot_needs ts)"
  have ok: "list_all (\<lambda>tn. sn_ok (snd tn)) ?tsn"
    by (rule phase1_ok) (rule init_needs_ok)
  have priced: "\<exists>t. load_price_row dam i15 i60 (opt_empty_row t) = Inr (row, []) \<and> Time row = t"
    if "row \<in> set optimized" for row
  proof -
    from load_price_data_rows[OF ld that] obtain row0 where
      "row0 \<in> set (map opt_empty_row ts)" "load_price_row dam i15 i60 row0 = Inr (row, [])" by blast
    then obtain t where t: "load_price_row dam i15 i60 (opt_empty_row t) = Inr (row, [])" by auto
    from load_price_row_Time[OF t] have "Time row = t" by (simp add: opt_empty_row_def)
    with t show ?thesis by blast
  qed
  from r rows obtain r2 where r2: "r2 \<in> set (fst (phase2 A optimized ?tsn
        (reset_eligible (get_eligible_vehicles vs s (resolve_end s e)) vs)))" and rr: "r = calc_costs r2"
    by auto
  from phase2_rows[OF r2] show ?thesis
  proof
    assume "r2 \<in> set optimized"
    from priced[OF this] rr show ?thesis by auto
  next
    assume "\<exists>row sn. row \<in> set optimized \<and> sn \<in> snd ` set ?tsn \<and> vehicles sn \<noteq> [] \<and> r2 = update_row A row sn"
    then obtain row sn where a: "row \<in> set optimized" "sn \<in> snd ` set ?tsn" "vehicles sn \<noteq> []"
        "r2 = update_row A row sn" by blast
    from a(2) ok have "sn_ok sn" by (auto simp: list_all_iff)
    moreover from priced[OF a(1)] have "load_price_row dam i15 i60 (opt_empty_row (Time r)) = Inr (row, [])"
      using rr a(4) by auto
    ultimately show ?thesis using a rr by blast
  qed
qed

lemma optimized_strategy_rows:
  assumes run: "optimized_strategy dam i15 i60 vs s e A = Inr (rows, vs')"
    and r: "r \<in> set rows"
  shows "\<exists>row. blank row \<and>
           (r = calc_costs row \<or> (\<exists>sn. sn_ok sn \<and> vehicles sn \<noteq> [] \<and> r = calc_costs (update_row A row sn)))"
proof -
  from optimized_strategy_priced_rows[OF run r] obtain row where
    p: "load_price_row dam i15 i60 (opt_empty_row (Time r)) = Inr (row, [])" and
    c: "r = calc_costs row \<or> (\<exists>sn. sn_ok sn \<and> vehicles sn \<noteq> [] \<and> r = calc_costs (update_row A row sn))"
    by blast
  from load_price_row_blank[OF p blank_empty_row] have "blank row" by simp
  with c show ?thesis by blast
qed

lemma result_rows_Inr:
  "result_rows res = Inr rows \<Longrightarrow> \<exists>vs'. res = Inr (rows, vs')"
  by (auto simp: result_rows_def split: sum.splits prod.splits)

lemma ex_run_rows:
  "result_rows (optimized_strategy [(0, 80)] [(0, 60)] [(0, 70)] ex_fleet 0 (Some 900) (1/2)) = Inr [ex_row]"
  by code_simp

section \<open>C1: slot-level energy conservation and the IDM block invariant\<close>

text \<open>
  Claim C1. With the allocation fraction in \<open>[0, 1]\<close>, every row \<open>r\<close> of the optimized
  schedule, with aggregate demand \<open>D = total_charge_kw r\<close>, satisfies: the total is the sum
  of the DAM column and the two IDM columns; each IDM column is an integer multiple of
  100 kW; the IDM power is \<open>floor((D - D * DAM_ALLOCATION) / 100) * 100\<close> and stands in one
  IDM column only; the DAM column is \<open>D\<close> minus the IDM power; and when the rounded IDM
  share is zero the whole demand is on DAM.
\<close>

theorem slot_energy_conservation:
  assumes run: "optimized_strategy dam_prices idm_15_prices idm_60_prices vs simulation_start simulation_end DAM_ALLOCATION = Inr (rows, vs')"
    and frac: "0 \<le> DAM_ALLOCATION" "DAM_ALLOCATION \<le> 1"
    and r: "r \<in> set rows"
  shows "total_charge_kw r = dam_charge_kw r + idm_15_charge_kw r + idm_60_charge_kw r
       \<and> (\<exists>k::int. idm_15_charge_kw r = of_int (k * 100))
       \<and> (\<exists>k::int. idm_60_charge_kw r = of_int (k * 100))
       \<and> 0 \<le> total_charge_kw r
       \<and> idm_15_charge_kw r + idm_60_charge_kw r
            = of_int (\<lfloor>(total_charge_kw r - total_charge_kw r * DAM_ALLOCATION) / 100\<rfloor> * 100)
       \<and> (idm_15_charge_kw r = 0 \<or> idm_60_charge_kw r = 0)
       \<and> dam_charge_kw r = total_charge_kw r - (idm_15_charge_kw r + idm_60_charge_kw r)
       \<and> (if \<lfloor>(total_charge_kw r - total_charge_kw r * DAM_ALLOCATION) / 100\<rfloor> = 0
          then dam_charge_kw r = total_charge_kw r else idm_15_charge_kw r + idm_60_charge_kw r > 0)"
proof -
  from optimized_strategy_rows[OF run r] obtain row where bl: "blank row" and
    cases: "r = calc_costs row \<or> (\<exists>sn. sn_ok sn \<and> vehicles sn \<noteq> [] \<and> r = calc_costs (update_row DAM_ALLOCATION row sn))"
    by blast
  from cases show ?thesis
  proof
    assume "r = calc_costs row"
    with bl show ?thesis by (simp add: blank_def)
  next
    assume "\<exists>sn. sn_ok sn \<and> vehicles sn \<noteq> [] \<and> r = calc_costs (update_row DAM_ALLOCATION row sn)"
    then obtain sn where sn: "sn_ok sn" "vehicles sn \<noteq> []" and req: "r = calc_costs (update_row DAM_ALLOCATION row sn)"
      by blast
    define d where "d = total_power_kw sn"
    define k where "k = \<lfloor>(d - d * DAM_ALLOCATION) / 100\<rfloor>"
    have dpos: "0 < d" unfolding d_def using sn by (rule sn_ok_pos)
    have idm: "idm_actual_kw DAM_ALLOCATION d = k * 100"
      unfolding k_def using dpos frac by (simp add: idm_actual_floor)
    have k0: "0 \<le> k" using idm_actual_bounds(1)[of d DAM_ALLOCATION] dpos frac idm by simp
    have kd: "(of_int (k * 100) :: rat) \<le> d"
      using idm_actual_bounds(2)[of d DAM_ALLOCATION] dpos frac idm by simp
    have tot: "total_charge_kw r = d" by (simp add: req d_def)
    have i: "idm_charge_kw r = of_int (k * 100)"
      using update_row_idm(1)[OF bl, of DAM_ALLOCATION sn] idm k0 by (simp add: req d_def max_def)
    have i15: "idm_15_charge_kw r = (if idm_15_price row \<le> idm_60_price row then of_int (k * 100) else 0)"
      using update_row_idm(2)[OF bl, of DAM_ALLOCATION sn] i by (simp add: req)
    have i60: "idm_60_charge_kw r = (if idm_15_price row \<le> idm_60_price row then 0 else of_int (k * 100))"
      using update_row_idm(3)[OF bl, of DAM_ALLOCATION sn] i by (simp add: req)
    have dm: "dam_charge_kw r = d - of_int (k * 100)"
      using update_row_dam[OF bl, of DAM_ALLOCATION sn] kd idm
      by (simp add: req d_def dam_actual_kw_def max_def)
    have m15: "\<exists>k'::int. idm_15_charge_kw r = of_int (k' * 100)"
    proof (cases "idm_15_price row \<le> idm_60_price row")
      case True
      with i15 show ?thesis by auto
    next
      case False
      with i15 have "idm_15_charge_kw r = of_int (0 * 100)" by simp
      then show ?thesis by blast
    qed
    have m60: "\<exists>k'::int. idm_60_charge_kw r = of_int (k' * 100)"
    proof (cases "idm_15_price row \<le> idm_60_price row")
      case False
      with i60 show ?thesis by auto
    next
      case True
      with i60 have "idm_60_charge_kw r = of_int (0 * 100)" by simp
      then show ?thesis by blast
    qed
    have sum: "idm_15_charge_kw r + idm_60_charge_kw r = of_int (k * 100)"
      using i15 i60 by simp
    have one: "idm_15_charge_kw r = 0 \<or> idm_60_charge_kw r = 0" using i15 i60 by simp
    have last: "if k = 0 then dam_charge_kw r = d else idm_15_charge_kw r + idm_60_charge_kw r > 0"
      using k0 dm sum by (cases "k = 0") auto
    show ?thesis
      unfolding tot using m15 m60 dpos sum one dm last
      by (simp add: k_def [symmetric])
  qed
qed



theorem slot_energy_conservation_witness:
  "result_rows (optimized_strategy [(0, 80)] [(0, 60)] [(0, 70)] ex_fleet 0 (Some 900) (1/2)) = Inr [ex_row]
   \<and> (0::rat) \<le> 1/2 \<and> (1/2::rat) \<le> 1 \<and> ex_row \<in> set [ex_row]
   \<and> total_charge_kw ex_row = 250 \<and> dam_charge_kw ex_row = 150
   \<and> idm_15_charge_kw ex_row = 100 \<and> idm_60_charge_kw ex_row = 0
   \<and> total_charge_kw ex_row = dam_charge_kw ex_row + idm_15_charge_kw ex_row + idm_60_charge_kw ex_row
   \<and> idm_15_charge_kw ex_row + idm_60_charge_kw ex_row
        = of_int (\<lfloor>(total_charge_kw ex_row - total_charge_kw ex_row * (1/2)) / 100\<rfloor> * 100)
   \<and> dam_charge_kw ex_row = total_charge_kw ex_row - (idm_15_charge_kw ex_row + idm_60_charge_kw ex_row)"
proof -
  obtain vs' where run:
    "optimized_strategy [(0, 80)] [(0, 60)] [(0, 70)] ex_fleet 0 (Some 900) (1/2) = Inr ([ex_row], vs')"
    using result_rows_Inr[OF ex_run_rows] by blast
  have mem: "ex_row \<in> set [ex_row]" by simp
  have vals: "total_charge_kw ex_row = 250 \<and> dam_charge_kw ex_row = 150
     \<and> idm_15_charge_kw ex_row = 100 \<and> idm_60_charge_kw ex_row = 0"
    by (simp add: ex_row_def)
  from slot_energy_conservation[OF run _ _ mem] ex_run_rows vals show ?thesis by simp
qed

section \<open>C5: the IDM sub-market of a slot\<close>

text \<open>
  Claim C5. In every row of the optimized schedule the slot's whole IDM power
  (\<open>idm_charge_kw\<close>, the rounded IDM share when it is positive) stands in the 15-minute
  column if the IDM-15 price is at most the IDM-60 price, and in the 60-minute column
  otherwise; the other column is zero, so at most one of the two is nonzero.
\<close>

theorem idm_submarket_selection:
  assumes run: "optimized_strategy dam_prices idm_15_prices idm_60_prices vs simulation_start simulation_end DAM_ALLOCATION = Inr (rows, vs')"
    and r: "r \<in> set rows"
  shows "(if idm_15_price r \<le> idm_60_price r
          then idm_15_charge_kw r = idm_charge_kw r \<and> idm_60_charge_kw r = 0
          else idm_60_charge_kw r = idm_charge_kw r \<and> idm_15_charge_kw r = 0)
       \<and> (idm_15_charge_kw r = 0 \<or> idm_60_charge_kw r = 0)
       \<and> idm_charge_kw r = of_int (max 0 (idm_actual_kw DAM_ALLOCATION (total_charge_kw r)))"
proof -
  from optimized_strategy_rows[OF run r] obtain row where bl: "blank row" and
    cases: "r = calc_costs row \<or> (\<exists>sn. sn_ok sn \<and> vehicles sn \<noteq> [] \<and> r = calc_costs (update_row DAM_ALLOCATION row sn))"
    by blast
  from cases show ?thesis
  proof
    assume "r = calc_costs row"
    with bl show ?thesis by (simp add: blank_def idm_actual_kw_def py_int_def)
  next
    assume "\<exists>sn. sn_ok sn \<and> vehicles sn \<noteq> [] \<and> r = calc_costs (update_row DAM_ALLOCATION row sn)"
    then obtain sn where req: "r = calc_costs (update_row DAM_ALLOCATION row sn)" by blast
    show ?thesis
      using update_row_idm[OF bl, of DAM_ALLOCATION sn] by (simp add: req)
  qed
qed


lemma ex_run_rows_60:
  "result_rows (optimized_strategy [(0, 80)] [(0, 75)] [(0, 70)] ex_fleet 0 (Some 900) (1/2)) = Inr [ex_row_60]"
  by code_simp

theorem idm_submarket_selection_witness:
  "result_rows (optimized_strategy [(0, 80)] [(0, 75)] [(0, 70)] ex_fleet 0 (Some 900) (1/2)) = Inr [ex_row_60]
   \<and> ex_row_60 \<in> set [ex_row_60]
   \<and> \<not> idm_15_price ex_row_60 \<le> idm_60_price ex_row_60
   \<and> idm_60_charge_kw ex_row_60 = idm_charge_kw ex_row_60 \<and> idm_15_charge_kw ex_row_60 = 0
   \<and> idm_charge_kw ex_row_60 = 100"
proof -
  obtain vs' where run:
    "optimized_strategy [(0, 80)] [(0, 75)] [(0, 70)] ex_fleet 0 (Some 900) (1/2) = Inr ([ex_row_60], vs')"
    using result_rows_Inr[OF ex_run_rows_60] by blast
  have mem: "ex_row_60 \<in> set [ex_row_60]" by simp
  have vals: "\<not> idm_15_price ex_row_60 \<le> idm_60_price ex_row_60 \<and> idm_charge_kw ex_row_60 = 100"
    by (simp add: ex_row_60_def)
  from idm_submarket_selection[OF run mem] ex_run_rows_60 vals show ?thesis by simp
qed

section \<open>C9: validation of the fleet parameters\<close>

text \<open>
  Claim C9 at a failing input: \<open>validate_parameters\<close> rejects a fleet of size zero, but the
  constructor builds the optimizer without consulting it (no definition of the model,
  like no function of the source, calls \<open>validate_parameters\<close>), and both strategies run
  to completion on the vehicles of such a fleet.
\<close>

theorem invalid_parameters_not_rejected:
  "validate_parameters (EVFleetOptimizer_init 0 47 (3/2) 11 (9/10) True)
     = Inl (ValueError ''fleet size must be positive'')
   \<and> fleet_size (EVFleetOptimizer_init 0 47 (3/2) 11 (9/10) True) = 0
   \<and> result_rows (baseline_strategy (sort_key bl_dam_price) [(0, 80)] [] 0 (Some 3600)) = Inr [ex_bl_row]
   \<and> validate_parameters (EVFleetOptimizer_init 30 47 (3/2) 11 (9/10) True) = Inr ()"
  by code_simp

section \<open>C7: prices of slots without a price row\<close>

lemma idxmin_from_min:
  "i = length pre \<Longrightarrow> best < i \<Longrightarrow> bestd = (pre @ ds) ! best \<Longrightarrow> \<forall>j<i. bestd \<le> (pre @ ds) ! j \<Longrightarrow>
     idxmin_from best bestd i ds < length (pre @ ds) \<and>
     (\<forall>j < length (pre @ ds). (pre @ ds) ! (idxmin_from best bestd i ds) \<le> (pre @ ds) ! j)"
proof (induction ds arbitrary: pre best bestd i)
  case Nil
  then show ?case by simp
next
  case (Cons d ds)
  have split: "pre @ d # ds = (pre @ [d]) @ ds" by simp
  have len: "Suc i = length (pre @ [d])" using Cons.prems(1) by simp
  have di: "((pre @ [d]) @ ds) ! i = d" using Cons.prems(1) by (simp add: nth_append)
  show ?case
  proof (cases "d < bestd")
    case True
    have all: "\<forall>j<Suc i. d \<le> ((pre @ [d]) @ ds) ! j"
    proof (intro allI impI)
      fix j assume "j < Suc i"
      then consider "j < i" | "j = i" by linarith
      then show "d \<le> ((pre @ [d]) @ ds) ! j"
      proof cases
        case 1
        with Cons.prems(4) have "bestd \<le> (pre @ d # ds) ! j" by simp
        with True show ?thesis unfolding split by simp
      next
        case 2
        with di show ?thesis by simp
      qed
    qed
    from Cons.IH[OF len _ di[symmetric] all] True show ?thesis
      unfolding split by simp
  next
    case False
    have b: "bestd = ((pre @ [d]) @ ds) ! best" using Cons.prems(3) by simp
    have all: "\<forall>j<Suc i. bestd \<le> ((pre @ [d]) @ ds) ! j"
    proof (intro allI impI)
      fix j assume "j < Suc i"
      then consider "j < i" | "j = i" by linarith
      then show "bestd \<le> ((pre @ [d]) @ ds) ! j"
      proof cases
        case 1
        with Cons.prems(4) show ?thesis by simp
      next
        case 2
        with di False show ?thesis by simp
      qed
    qed
    have "best < Suc i" using Cons.prems(2) by simp
    from Cons.IH[OF len this b all] False show ?thesis
      unfolding split by simp
  qed
qed

lemma closest_idx_nearest:
  assumes "closest_idx tbl t = Inr k"
  shows "k < length tbl \<and> (\<forall>i < length tbl. \<bar>fst (tbl ! k) - t\<bar> \<le> \<bar>fst (tbl ! i) - t\<bar>)"
proof -
  let ?ds = "map (\<lambda>r. \<bar>fst r - t\<bar>) tbl"
  from assms obtain d ds where ds: "?ds = d # ds" and k: "k = idxmin_from 0 d 1 ds"
    by (auto simp: closest_idx_def split: list.splits)
  have "idxmin_from 0 d 1 ds < length ([d] @ ds) \<and>
     (\<forall>j < length ([d] @ ds). ([d] @ ds) ! (idxmin_from 0 d 1 ds) \<le> ([d] @ ds) ! j)"
    by (rule idxmin_from_min) simp_all
  then have kl: "k < length ?ds" and mn: "\<forall>j < length ?ds. ?ds ! k \<le> ?ds ! j"
    using ds k by simp_all
  from kl have kl': "k < length tbl" by simp
  have "\<bar>fst (tbl ! k) - t\<bar> \<le> \<bar>fst (tbl ! i) - t\<bar>" if "i < length tbl" for i
  proof -
    from that mn have "?ds ! k \<le> ?ds ! i" by simp
    with that kl' show ?thesis by simp
  qed
  with kl' show ?thesis by blast
qed

lemma closest_idx_empty: "closest_idx [] t = Inl (ValueError ''attempt to get argmin of an empty sequence'')"
  by (simp add: closest_idx_def)

lemma find_dam_price_cases:
  assumes "find_dam_price dam h = Inr p"
  shows "case prices_in_range dam h (h + 3600) of
           x # _ \<Rightarrow> p = snd x
         | [] \<Rightarrow> \<exists>k < length dam. p = snd (dam ! k) \<and>
                   (\<forall>i < length dam. \<bar>fst (dam ! k) - h\<bar> \<le> \<bar>fst (dam ! i) - h\<bar>)"
proof (cases "prices_in_range dam h (h + 3600)")
  case Nil
  with assms obtain k where k: "closest_idx dam h = Inr k"
    and p: "p = (if k < length dam then snd (dam ! k) else 50)"
    by (auto simp: find_dam_price_def split: sum.splits if_splits)
  from closest_idx_nearest[OF k] p Nil show ?thesis by auto
next
  case (Cons x xs)
  with assms show ?thesis by (simp add: find_dam_price_def)
qed

lemma load_price_row_prices:
  assumes "load_price_row dam i15 i60 row = Inr (p, m)"
  shows "find_dam_price dam (Time row - Time row mod 3600) = Inr (dam_price p)"
    and "idm_15_price p = find_idm_price i15 (Time row) (Time row + 900) (dam_price p)"
    and "idm_60_price p = find_idm_price i60 (Time row - Time row mod 3600) (Time row - Time row mod 3600 + 3600) (dam_price p)"
  using assms by (auto simp: load_price_row_def Let_def split: sum.splits)

lemma calc_costs_costs:
  "dam_cost (calc_costs r) = dam_charge_kw r * dam_price r / 1000 * (1/4)"
  "idm_15_cost (calc_costs r) = idm_15_charge_kw r * idm_15_price r / 1000 * (1/4)"
  "idm_60_cost (calc_costs r) = idm_60_charge_kw r * idm_60_price r / 1000 * (1/4)"
  "idm_cost (calc_costs r) = idm_15_cost (calc_costs r) + idm_60_cost (calc_costs r)"
  by (simp_all add: calc_costs_def Let_def)

text \<open>
  Claim C7 as stated fails. The slot at 0 has no IDM-15 row (the only one starts at 900):
  the price used is the slot's DAM price 80, neither the nearest IDM-15 quote (10) nor a
  constant, and the price loop emits no message. Without any DAM row the run raises
  instead of falling back to a constant.
\<close>

theorem price_gap_silent_counterexample:
  "prices_in_range [(900, 10)] 0 900 = []
   \<and> load_price_row [(0, 80)] [(900, 10)] [(0, 70)] (opt_empty_row 0) = Inr (ex_priced_gap, [])
   \<and> idm_15_price ex_priced_gap = 80
   \<and> result_rows (optimized_strategy [] [(900, 10)] [(0, 70)] ex_fleet 0 (Some 900) (1/2))
        = Inl (ValueError ''attempt to get argmin of an empty sequence'')"
  by code_simp

text \<open>
  Claim C7, amended. For every row of the optimized schedule: the DAM price is that of the
  first DAM row inside the slot's hour, or else that of a DAM row nearest in time to the
  start of the hour; each IDM price is that of the first row inside its bucket, or else the
  slot's DAM price; loading the prices of the row emits no message; and the costs are
  power times the resolved price, divided by 1000, times a quarter of an hour.
\<close>

theorem price_resolution:
  assumes run: "optimized_strategy dam_prices idm_15_prices idm_60_prices vs simulation_start simulation_end DAM_ALLOCATION = Inr (rows, vs')"
    and r: "r \<in> set rows"
  shows "(\<exists>p. load_price_row dam_prices idm_15_prices idm_60_prices (opt_empty_row (Time r)) = Inr (p, [])
             \<and> dam_price r = dam_price p \<and> idm_15_price r = idm_15_price p \<and> idm_60_price r = idm_60_price p)
       \<and> (case prices_in_range dam_prices (Time r - Time r mod 3600) (Time r - Time r mod 3600 + 3600) of
             x # _ \<Rightarrow> dam_price r = snd x
           | [] \<Rightarrow> \<exists>k < length dam_prices. dam_price r = snd (dam_prices ! k) \<and>
                   (\<forall>i < length dam_prices.
                      \<bar>fst (dam_prices ! k) - (Time r - Time r mod 3600)\<bar>
                        \<le> \<bar>fst (dam_prices ! i) - (Time r - Time r mod 3600)\<bar>))
       \<and> idm_15_price r =
            (case prices_in_range idm_15_prices (Time r) (Time r + 900) of
               x # _ \<Rightarrow> snd x | [] \<Rightarrow> dam_price r)
       \<and> idm_60_price r =
            (case prices_in_range idm_60_prices (Time r - Time r mod 3600) (Time r - Time r mod 3600 + 3600) of
               x # _ \<Rightarrow> snd x | [] \<Rightarrow> dam_price r)
       \<and> dam_cost r = dam_charge_kw r * dam_price r / 1000 * (1/4)
       \<and> idm_15_cost r = idm_15_charge_kw r * idm_15_price r / 1000 * (1/4)
       \<and> idm_60_cost r = idm_60_charge_kw r * idm_60_price r / 1000 * (1/4)
       \<and> idm_cost r = idm_15_cost r + idm_60_cost r"
proof -
  from optimized_strategy_priced_rows[OF run r] obtain p where
    p: "load_price_row dam_prices idm_15_prices idm_60_prices (opt_empty_row (Time r)) = Inr (p, [])" and
    c: "r = calc_costs p \<or> (\<exists>sn. sn_ok sn \<and> vehicles sn \<noteq> [] \<and> r = calc_costs (update_row DAM_ALLOCATION p sn))"
    by blast
  have t: "Time (opt_empty_row (Time r)) = Time r" by (simp add: opt_empty_row_def)
  from c have pr: "dam_price r = dam_price p" "idm_15_price r = idm_15_price p" "idm_60_price r = idm_60_price p"
    by auto
  from c have costs: "dam_cost r = dam_charge_kw r * dam_price r / 1000 * (1/4)"
    "idm_15_cost r = idm_15_charge_kw r * idm_15_price r / 1000 * (1/4)"
    "idm_60_cost r = idm_60_charge_kw r * idm_60_price r / 1000 * (1/4)"
    "idm_cost r = idm_15_cost r + idm_60_cost r"
    by (auto simp: calc_costs_costs)
  note lp = load_price_row_prices[OF p, unfolded t]
  have d: "case prices_in_range dam_prices (Time r - Time r mod 3600) (Time r - Time r mod 3600 + 3600) of
             x # _ \<Rightarrow> dam_price r = snd x
           | [] \<Rightarrow> \<exists>k < length dam_prices. dam_price r = snd (dam_prices ! k) \<and>
                   (\<forall>i < length dam_prices.
                      \<bar>fst (dam_prices ! k) - (Time r - Time r mod 3600)\<bar>
                        \<le> \<bar>fst (dam_prices ! i) - (Time r - Time r mod 3600)\<bar>)"
    using find_dam_price_cases[OF lp(1)] unfolding pr(1) .
  have i15: "idm_15_price r =
            (case prices_in_range idm_15_prices (Time r) (Time r + 900) of
               x # _ \<Rightarrow> snd x | [] \<Rightarrow> dam_price r)"
    using lp(2) unfolding pr find_idm_price_def .
  have i60: "idm_60_price r =
            (case prices_in_range idm_60_prices (Time r - Time r mod 3600) (Time r - Time r mod 3600 + 3600) of
               x # _ \<Rightarrow> snd x | [] \<Rightarrow> dam_price r)"
    using lp(3) unfolding pr find_idm_price_def .
  from p pr have ex: "\<exists>p. load_price_row dam_prices idm_15_prices idm_60_prices (opt_empty_row (Time r)) = Inr (p, [])
             \<and> dam_price r = dam_price p \<and> idm_15_price r = idm_15_price p \<and> idm_60_price r = idm_60_price p"
    by blast
  from ex d i15 i60 costs show ?thesis by blast
qed


lemma ex_run_rows_gap:
  "result_rows (optimized_strategy [(0, 80)] [(900, 10)] [(0, 70)] ex_fleet 0 (Some 900) (1/2)) = Inr [ex_row_gap]"
  by code_simp

theorem price_resolution_witness:
  "result_rows (optimized_strategy [(0, 80)] [(900, 10)] [(0, 70)] ex_fleet 0 (Some 900) (1/2)) = Inr [ex_row_gap]
   \<and> ex_row_gap \<in> set [ex_row_gap]
   \<and> prices_in_range [(900, 10)] (Time ex_row_gap) (Time ex_row_gap + 900) = []
   \<and> idm_15_price ex_row_gap = dam_price ex_row_gap
   \<and> dam_price ex_row_gap = 80
   \<and> dam_cost ex_row_gap = dam_charge_kw ex_row_gap * dam_price ex_row_gap / 1000 * (1/4)
   \<and> idm_60_cost ex_row_gap = idm_60_charge_kw ex_row_gap * idm_60_price ex_row_gap / 1000 * (1/4)"
proof -
  obtain vs' where run:
    "optimized_strategy [(0, 80)] [(900, 10)] [(0, 70)] ex_fleet 0 (Some 900) (1/2) = Inr ([ex_row_gap], vs')"
    using result_rows_Inr[OF ex_run_rows_gap] by blast
  have mem: "ex_row_gap \<in> set [ex_row_gap]" by simp
  have vals: "prices_in_range [(900, 10)] (Time ex_row_gap) (Time ex_row_gap + 900) = []
     \<and> dam_price ex_row_gap = 80 \<and> idm_15_price ex_row_gap = 80"
    by (simp add: ex_row_gap_def ex_row_60_def prices_in_range_def)
  from price_resolution[OF run mem] ex_run_rows_gap vals show ?thesis by simp
qed

section \<open>The distribution of one slot to its vehicles\<close>

lemma length_distribute_back [simp]: "length (distribute_back t u ir dr es vs) = length vs"
  by (induction es arbitrary: vs) simp_all

lemma distribute_back_nth:
  "j < length vs \<Longrightarrow>
     distribute_back t u ir dr es vs ! j =
       fold (\<lambda>e v. if vehicle e = j then charge_vehicle t u ir dr (power_kw e) v else v) es (vs ! j)"
proof (induction es arbitrary: vs)
  case Nil
  then show ?case by simp
next
  case (Cons e es)
  let ?vs1 = "vs[vehicle e := charge_vehicle t u ir dr (power_kw e) (vs ! vehicle e)]"
  have "?vs1 ! j = (if vehicle e = j then charge_vehicle t u ir dr (power_kw e) (vs ! j) else vs ! j)"
    using Cons.prems by (cases "vehicle e < length vs") (auto simp: nth_list_update)
  moreover have "j < length ?vs1" using Cons.prems by simp
  ultimately show ?case using Cons.IH[of ?vs1] by simp
qed

lemma fold_single_vehicle:
  "distinct (map vehicle es) \<Longrightarrow> e \<in> set es \<Longrightarrow>
     fold (\<lambda>e' v. if vehicle e' = vehicle e then f (power_kw e') v else v) es v = f (power_kw e) v"
proof (induction es arbitrary: v)
  case Nil
  then show ?case by simp
next
  case (Cons a es)
  show ?case
  proof (cases "a = e")
    case True
    from Cons.prems(1) True have "vehicle e \<notin> vehicle ` set es" by simp
    then have "\<forall>e' \<in> set es. vehicle e' \<noteq> vehicle e" by (metis imageI)
    then have "fold (\<lambda>e' v. if vehicle e' = vehicle e then f (power_kw e') v else v) es w = w" for w
      by (induction es arbitrary: w) auto
    with True show ?thesis by simp
  next
    case False
    with Cons.prems have "e \<in> set es" "vehicle a \<noteq> vehicle e" by auto
    with Cons.IH[of v] Cons.prems(1) show ?thesis by simp
  qed
qed

lemma fold_no_vehicle:
  "\<forall>e \<in> set es. vehicle e \<noteq> j \<Longrightarrow>
     fold (\<lambda>e v. if vehicle e = j then f (power_kw e) v else v) es v = v"
  by (induction es arbitrary: v) auto

lemma charge_vehicle_soc:
  "current_soc (charge_vehicle t u ir dr p v) =
     current_soc v + (p * ir * (1/4) + p * dr * (1/4)) / capacity_kwh v"
  by (simp add: charge_vehicle_def Let_def)

lemma charge_vehicle_entry:
  assumes "0 \<le> p * ir" "0 \<le> p * dr" "0 < p * ir + p * dr"
  shows "entry_dam_kw (charging_schedule (charge_vehicle t u ir dr p v) t) = p * dr"
    and "entry_idm_kw (charging_schedule (charge_vehicle t u ir dr p v) t) = p * ir"
  using assms by (auto simp: charge_vehicle_def Let_def entry_dam_kw_def entry_idm_kw_def)

lemma ratios_nonneg:
  assumes "0 \<le> A" "A \<le> 1" "0 < d"
  shows "0 \<le> of_int (idm_actual_kw A d) / d" and "0 \<le> dam_actual_kw A d / d"
    and "of_int (idm_actual_kw A d) / d + dam_actual_kw A d / d = 1"
proof -
  from assms idm_actual_bounds[of d A] have b: "0 \<le> idm_actual_kw A d" "of_int (idm_actual_kw A d) \<le> d"
    by simp_all
  from b(1) assms(3) show "0 \<le> of_int (idm_actual_kw A d) / d" by simp
  from b(2) assms(3) show "0 \<le> dam_actual_kw A d / d" by (simp add: dam_actual_kw_def)
  from assms(3) show "of_int (idm_actual_kw A d) / d + dam_actual_kw A d / d = 1"
    by (simp add: dam_actual_kw_def add_divide_distrib [symmetric])
qed

text \<open>
  One iteration of the loop over the slots, for a slot whose entries have positive power
  and name each vehicle at most once: the vehicle of an entry is charged the entry's power
  times the slot's DAM and IDM ratios.
\<close>

lemma slot_proportional:
  assumes frac: "0 \<le> DAM_ALLOCATION" "DAM_ALLOCATION \<le> 1"
    and d: "0 < total_power_kw sn"
    and e: "e \<in> set (vehicles sn)" "0 < power_kw e" "vehicle e < length vs"
    and dist: "distinct (map vehicle (vehicles sn))"
  shows "entry_dam_kw (charging_schedule (snd (allocate_slot DAM_ALLOCATION row (t, sn) vs) ! vehicle e) t)
           = power_kw e * (dam_actual_kw DAM_ALLOCATION (total_power_kw sn) / total_power_kw sn)
       \<and> entry_idm_kw (charging_schedule (snd (allocate_slot DAM_ALLOCATION row (t, sn) vs) ! vehicle e) t)
           = power_kw e * (of_int (idm_actual_kw DAM_ALLOCATION (total_power_kw sn)) / total_power_kw sn)
       \<and> idm_actual_kw DAM_ALLOCATION (total_power_kw sn)
           = \<lfloor>(total_power_kw sn - total_power_kw sn * DAM_ALLOCATION) / 100\<rfloor> * 100
       \<and> dam_actual_kw DAM_ALLOCATION (total_power_kw sn)
           = total_power_kw sn - of_int (idm_actual_kw DAM_ALLOCATION (total_power_kw sn))
       \<and> (if sn_ok sn0 \<and> total_power_kw sn0 = 0
          then allocate_slot DAM_ALLOCATION row (t, sn0) vs = (row, vs) else True)"
proof -
  let ?d = "total_power_kw sn"
  let ?ir = "of_int (idm_actual_kw DAM_ALLOCATION ?d) / ?d"
  let ?dr = "dam_actual_kw DAM_ALLOCATION ?d / ?d"
  let ?f = "charge_vehicle t (use_15_min_idm row) ?ir ?dr"
  from e(1) have ne: "vehicles sn \<noteq> []" by auto
  have vs': "snd (allocate_slot DAM_ALLOCATION row (t, sn) vs) =
      distribute_back t (use_15_min_idm row) ?ir ?dr (vehicles sn) vs"
    using ne d by (simp add: allocate_slot_def update_vehicles_def Let_def)
  have "snd (allocate_slot DAM_ALLOCATION row (t, sn) vs) ! vehicle e =
      fold (\<lambda>e' v. if vehicle e' = vehicle e then ?f (power_kw e') v else v) (vehicles sn) (vs ! vehicle e)"
    unfolding vs' using e(3) by (rule distribute_back_nth)
  also have "\<dots> = ?f (power_kw e) (vs ! vehicle e)"
    using dist e(1) by (rule fold_single_vehicle)
  finally have v': "snd (allocate_slot DAM_ALLOCATION row (t, sn) vs) ! vehicle e = ?f (power_kw e) (vs ! vehicle e)" .
  note rn = ratios_nonneg[OF frac d]
  have nn: "0 \<le> power_kw e * ?ir" "0 \<le> power_kw e * ?dr"
    using e(2) rn(1,2) by (simp_all only: mult_nonneg_nonneg less_imp_le)
  have "power_kw e * ?ir + power_kw e * ?dr = power_kw e * (?ir + ?dr)" by (simp add: distrib_left)
  with rn(3) e(2) have pos: "0 < power_kw e * ?ir + power_kw e * ?dr" by simp
  have skip: "if sn_ok sn0 \<and> total_power_kw sn0 = 0
          then allocate_slot DAM_ALLOCATION row (t, sn0) vs = (row, vs) else True"
  proof (cases "sn_ok sn0 \<and> total_power_kw sn0 = 0")
    case True
    then have "vehicles sn0 = []" using sn_ok_pos[of sn0] by auto
    with True show ?thesis by (simp add: allocate_slot_def)
  next
    case False
    then show ?thesis by auto
  qed
  from d frac have fl: "idm_actual_kw DAM_ALLOCATION ?d = \<lfloor>(?d - ?d * DAM_ALLOCATION) / 100\<rfloor> * 100"
    by (simp add: idm_actual_floor)
  show ?thesis
    unfolding v' using charge_vehicle_entry[OF nn pos] fl skip
    by (simp add: dam_actual_kw_def)
qed

lemma ex_run_schedule:
  "result_schedule (optimized_strategy [(0, 80)] [(0, 60)] [(0, 70)] ex_fleet 0 (Some 900) (1/2)) 0 0
     = Some (MIXED 30 20 Min15)"
  by code_simp

lemma ex_slot_schedule:
  "charging_schedule (snd (allocate_slot (1/2) ex_row (0, ex_slot) ex_fleet) ! 0) 0 = Some (MIXED 30 20 Min15)"
  by code_simp


section \<open>What the strategies read of a vehicle\<close>

text \<open>
  The lemmas of this section are stated for any view \<open>\<pi>\<close> of a vehicle: two fleets that
  look alike through \<open>\<pi>\<close> yield the same rows and fleets that look alike through \<open>\<pi>\<close>,
  provided every step of a strategy respects the view.
\<close>

lemma rel_nth:
  "map \<pi> vs = map \<pi> vs' \<Longrightarrow> j < length vs \<Longrightarrow> \<pi> (vs ! j) = \<pi> (vs' ! j)"
  by (metis length_map nth_map)

lemma rel_length: "map \<pi> vs = map \<pi> vs' \<Longrightarrow> length vs = length vs'"
  by (metis length_map)

lemma rel_update:
  assumes rel: "map \<pi> vs = map \<pi> vs'"
    and step: "\<And>v v'. \<pi> v = \<pi> v' \<Longrightarrow> \<pi> (g v) = \<pi> (g v')"
  shows "map \<pi> (vs[j := g (vs ! j)]) = map \<pi> (vs'[j := g (vs' ! j)])"
proof (cases "j < length vs")
  case True
  from rel_nth[OF rel True] have "\<pi> (g (vs ! j)) = \<pi> (g (vs' ! j))" by (rule step)
  with rel show ?thesis by (simp add: map_update)
next
  case False
  with rel_length[OF rel] have "vs[j := g (vs ! j)] = vs" "vs'[j := g (vs' ! j)] = vs'"
    by (simp_all add: list_update_beyond)
  with rel show ?thesis by simp
qed

lemma get_eligible_vehicles_bound: "j \<in> set (get_eligible_vehicles vs s e) \<Longrightarrow> j < length vs"
  by (simp add: get_eligible_vehicles_def)

lemma get_eligible_vehicles_rel:
  assumes rel: "map \<pi> vs = map \<pi> vs'"
    and el: "\<And>v v'. \<pi> v = \<pi> v' \<Longrightarrow> get_eligible_vehicles_pred s e v = get_eligible_vehicles_pred s e v'"
  shows "get_eligible_vehicles vs s e = get_eligible_vehicles vs' s e"
proof -
  have "filter (\<lambda>j. get_eligible_vehicles_pred s e (vs ! j)) [0 ..< length vs]
      = filter (\<lambda>j. get_eligible_vehicles_pred s e (vs' ! j)) [0 ..< length vs]"
  proof (rule filter_cong[OF refl])
    fix j assume "j \<in> set [0 ..< length vs]"
    then have "j < length vs" by simp
    from rel_nth[OF rel this]
    show "get_eligible_vehicles_pred s e (vs ! j) = get_eligible_vehicles_pred s e (vs' ! j)"
      by (rule el)
  qed
  with rel_length[OF rel] show ?thesis by (simp add: get_eligible_vehicles_def)
qed

lemma reset_eligible_rel:
  assumes step: "\<And>v v'. \<pi> v = \<pi> v' \<Longrightarrow> \<pi> (reset_vehicle v) = \<pi> (reset_vehicle v')"
  shows "map \<pi> vs = map \<pi> vs' \<Longrightarrow> map \<pi> (reset_eligible js vs) = map \<pi> (reset_eligible js vs')"
proof (induction js arbitrary: vs vs')
  case Nil
  then show ?case by simp
next
  case (Cons j js)
  from rel_update[OF Cons.prems step] have
    "map \<pi> (vs[j := reset_vehicle (vs ! j)]) = map \<pi> (vs'[j := reset_vehicle (vs' ! j)])" .
  from Cons.IH[OF this] show ?case by simp
qed

lemma length_reset_eligible [simp]: "length (reset_eligible js vs) = length vs"
  by (induction js arbitrary: vs) simp_all

lemma phase1_rel:
  assumes rel: "map \<pi> vs = map \<pi> vs'"
    and vn: "\<And>j v v' tsn. \<pi> v = \<pi> v' \<Longrightarrow> vehicle_needs optimized j v tsn = vehicle_needs optimized j v' tsn"
    and bound: "\<forall>j \<in> set js. j < length vs"
  shows "phase1 optimized vs js tsn = phase1 optimized vs' js tsn"
  using bound
proof (induction js arbitrary: tsn)
  case Nil
  then show ?case by simp
next
  case (Cons j js)
  from Cons.prems have "j < length vs" by simp
  from rel_nth[OF rel this] have "vehicle_needs optimized j (vs ! j) tsn = vehicle_needs optimized j (vs' ! j) tsn"
    by (rule vn)
  with Cons show ?case by simp
qed

lemma distribute_back_rel:
  assumes step: "\<And>p v v'. \<pi> v = \<pi> v' \<Longrightarrow> \<pi> (charge_vehicle t u ir dr p v) = \<pi> (charge_vehicle t u ir dr p v')"
  shows "map \<pi> vs = map \<pi> vs' \<Longrightarrow>
     map \<pi> (distribute_back t u ir dr es vs) = map \<pi> (distribute_back t u ir dr es vs')"
proof (induction es arbitrary: vs vs')
  case Nil
  then show ?case by simp
next
  case (Cons e es)
  have "map \<pi> (vs[vehicle e := charge_vehicle t u ir dr (power_kw e) (vs ! vehicle e)])
      = map \<pi> (vs'[vehicle e := charge_vehicle t u ir dr (power_kw e) (vs' ! vehicle e)])"
    using Cons.prems by (rule rel_update) (rule step)
  from Cons.IH[OF this] show ?case by simp
qed

lemma allocate_slot_rel:
  assumes step: "\<And>t u ir dr p v v'. \<pi> v = \<pi> v' \<Longrightarrow> \<pi> (charge_vehicle t u ir dr p v) = \<pi> (charge_vehicle t u ir dr p v')"
    and rel: "map \<pi> vs = map \<pi> vs'"
  shows "fst (allocate_slot A row tn vs) = fst (allocate_slot A row tn vs')"
    and "map \<pi> (snd (allocate_slot A row tn vs)) = map \<pi> (snd (allocate_slot A row tn vs'))"
  using rel distribute_back_rel[of \<pi>, OF step rel]
  by (simp_all add: allocate_slot_def update_vehicles_def Let_def)

lemma phase2_rel:
  assumes step: "\<And>t u ir dr p v v'. \<pi> v = \<pi> v' \<Longrightarrow> \<pi> (charge_vehicle t u ir dr p v) = \<pi> (charge_vehicle t u ir dr p v')"
  shows "map \<pi> vs = map \<pi> vs' \<Longrightarrow>
     fst (phase2 A rows tsn vs) = fst (phase2 A rows tsn vs') \<and>
     map \<pi> (snd (phase2 A rows tsn vs)) = map \<pi> (snd (phase2 A rows tsn vs'))"
proof (induction A rows tsn vs arbitrary: vs' rule: phase2.induct)
  case (1 A row rows tn tsn vs)
  note a = allocate_slot_rel[of \<pi>, OF step "1.prems", of A row tn]
  from "1.IH"[OF refl prod.collapse a(2)] a(1)
  show ?case by (simp add: Let_def split_beta)
qed simp_all


lemma optimized_strategy_rel:
  assumes el: "\<And>s e v v'. \<pi> v = \<pi> v' \<Longrightarrow> get_eligible_vehicles_pred s e v = get_eligible_vehicles_pred s e v'"
    and vn: "\<And>optimized j v v' tsn. \<pi> v = \<pi> v' \<Longrightarrow> vehicle_needs optimized j v tsn = vehicle_needs optimized j v' tsn"
    and rs: "\<And>v v'. \<pi> v = \<pi> v' \<Longrightarrow> \<pi> (reset_vehicle v) = \<pi> (reset_vehicle v')"
    and cv: "\<And>t u ir dr p v v'. \<pi> v = \<pi> v' \<Longrightarrow> \<pi> (charge_vehicle t u ir dr p v) = \<pi> (charge_vehicle t u ir dr p v')"
    and rel: "map \<pi> vs = map \<pi> vs'"
  shows "result_rows (optimized_strategy dam i15 i60 vs s e A) = result_rows (optimized_strategy dam i15 i60 vs' s e A)
       \<and> map_sum id (map \<pi>) (result_vehicles (optimized_strategy dam i15 i60 vs s e A))
         = map_sum id (map \<pi>) (result_vehicles (optimized_strategy dam i15 i60 vs' s e A))"
proof (cases "opt_schedule_times s (resolve_end s e)")
  case (Inl err)
  then show ?thesis by (simp add: optimized_strategy_def Let_def result_rows_def result_vehicles_def)
next
  case (Inr ts)
  show ?thesis
  proof (cases "load_price_data dam i15 i60 (map opt_empty_row ts)")
    case (Inl err)
    with Inr show ?thesis by (simp add: optimized_strategy_def Let_def result_rows_def result_vehicles_def)
  next
    case ld: (Inr pm)
    obtain optimized msgs where pm: "pm = (optimized, msgs)" by (cases pm)
    let ?js = "get_eligible_vehicles vs s (resolve_end s e)"
    have js: "get_eligible_vehicles vs' s (resolve_end s e) = ?js"
      using get_eligible_vehicles_rel[of \<pi>, OF rel el] by simp
    have r1: "map \<pi> (reset_eligible ?js vs) = map \<pi> (reset_eligible ?js vs')"
      using rs rel by (rule reset_eligible_rel)
    have bound: "\<forall>j \<in> set ?js. j < length (reset_eligible ?js vs)"
      by (simp add: get_eligible_vehicles_bound)
    have tsn: "phase1 optimized (reset_eligible ?js vs) ?js (init_time_slot_needs ts)
        = phase1 optimized (reset_eligible ?js vs') ?js (init_time_slot_needs ts)"
      using r1 vn bound by (rule phase1_rel)
    let ?tsn = "phase1 optimized (reset_eligible ?js vs) ?js (init_time_slot_needs ts)"
    from phase2_rel[of \<pi>, OF cv r1, of A optimized ?tsn]
    have p2: "fst (phase2 A optimized ?tsn (reset_eligible ?js vs)) = fst (phase2 A optimized ?tsn (reset_eligible ?js vs'))"
      "map \<pi> (snd (phase2 A optimized ?tsn (reset_eligible ?js vs)))
         = map \<pi> (snd (phase2 A optimized ?tsn (reset_eligible ?js vs')))"
      by simp_all
    have l: "optimized_strategy dam i15 i60 vs s e A =
        Inr (map calc_costs (fst (phase2 A optimized ?tsn (reset_eligible ?js vs))),
             snd (phase2 A optimized ?tsn (reset_eligible ?js vs)))"
      using Inr ld pm by (simp add: optimized_strategy_def Let_def split_beta)
    have r: "optimized_strategy dam i15 i60 vs' s e A =
        Inr (map calc_costs (fst (phase2 A optimized ?tsn (reset_eligible ?js vs'))),
             snd (phase2 A optimized ?tsn (reset_eligible ?js vs')))"
      using Inr ld pm js tsn by (simp add: optimized_strategy_def Let_def split_beta)
    show ?thesis unfolding l r using p2 by (simp add: result_rows_def result_vehicles_def)
  qed
qed

lemma bl_loop_rel:
  assumes bv: "\<And>b v v'. \<pi> v = \<pi> v' \<Longrightarrow>
        fst (bl_vehicle srt b v) = fst (bl_vehicle srt b v') \<and> \<pi> (snd (bl_vehicle srt b v)) = \<pi> (snd (bl_vehicle srt b v'))"
  shows "map \<pi> vs = map \<pi> vs' \<Longrightarrow> \<forall>j \<in> set js. j < length vs \<Longrightarrow>
     fst (bl_loop srt js b vs) = fst (bl_loop srt js b vs') \<and>
     map \<pi> (snd (bl_loop srt js b vs)) = map \<pi> (snd (bl_loop srt js b vs'))"
proof (induction js arbitrary: b vs vs')
  case Nil
  then show ?case by simp
next
  case (Cons j js)
  from Cons.prems(2) have j: "j < length vs" by simp
  note st = bv[OF rel_nth[OF Cons.prems(1) j], of b]
  let ?v = "snd (bl_vehicle srt b (vs ! j))" and ?v' = "snd (bl_vehicle srt b (vs' ! j))"
  let ?b = "fst (bl_vehicle srt b (vs ! j))"
  have rel': "map \<pi> (vs[j := ?v]) = map \<pi> (vs'[j := ?v'])"
    using Cons.prems(1) st by (simp add: map_update)
  have bound': "\<forall>k \<in> set js. k < length (vs[j := ?v])" using Cons.prems(2) by simp
  from Cons.IH[OF rel' bound', of ?b] st
  show ?case by (simp add: split_beta)
qed

lemma baseline_strategy_rel:
  assumes el: "\<And>s e v v'. \<pi> v = \<pi> v' \<Longrightarrow> get_eligible_vehicles_pred s e v = get_eligible_vehicles_pred s e v'"
    and bv: "\<And>b v v'. \<pi> v = \<pi> v' \<Longrightarrow>
        fst (bl_vehicle srt b v) = fst (bl_vehicle srt b v') \<and> \<pi> (snd (bl_vehicle srt b v)) = \<pi> (snd (bl_vehicle srt b v'))"
    and rel: "map \<pi> vs = map \<pi> vs'"
  shows "result_rows (baseline_strategy srt dam vs s e) = result_rows (baseline_strategy srt dam vs' s e)
       \<and> map_sum id (map \<pi>) (result_vehicles (baseline_strategy srt dam vs s e))
         = map_sum id (map \<pi>) (result_vehicles (baseline_strategy srt dam vs' s e))"
proof -
  let ?js = "get_eligible_vehicles vs s (resolve_end s e)"
  have js: "get_eligible_vehicles vs' s (resolve_end s e) = ?js"
    using get_eligible_vehicles_rel[of \<pi>, OF rel el] by simp
  have bound: "\<forall>j \<in> set ?js. j < length vs" by (simp add: get_eligible_vehicles_bound)
  note lp = bl_loop_rel[of \<pi> srt, OF bv rel bound]
  show ?thesis
    using lp by (simp add: baseline_strategy_def Let_def js split_beta result_rows_def result_vehicles_def
        split: sum.splits)
qed

lemma static_facts:
  "get_eligible_vehicles_pred s e (static v) = get_eligible_vehicles_pred s e v"
  "vehicle_needs optimized j (static v) tsn = vehicle_needs optimized j v tsn"
  "static (reset_vehicle v) = static v"
  "static (charge_vehicle t u ir dr p v) = static v"
  "fst (bl_vehicle srt b (static v)) = fst (bl_vehicle srt b v)"
  "static (snd (bl_vehicle srt b v)) = static v"
  by (simp_all add: static_def get_eligible_vehicles_pred_def vehicle_needs_def time_prices_of_def
      reset_vehicle_def charge_vehicle_def bl_vehicle_def Let_def split_beta)

lemma forget_facts:
  "get_eligible_vehicles_pred s e (forget_min_charge v) = get_eligible_vehicles_pred s e v"
  "vehicle_needs optimized j (forget_min_charge v) tsn = vehicle_needs optimized j v tsn"
  "forget_min_charge (reset_vehicle v) = reset_vehicle (forget_min_charge v)"
  "forget_min_charge (charge_vehicle t u ir dr p v) = charge_vehicle t u ir dr p (forget_min_charge v)"
  "fst (bl_vehicle srt b (forget_min_charge v)) = fst (bl_vehicle srt b v)"
  "forget_min_charge (snd (bl_vehicle srt b v)) = snd (bl_vehicle srt b (forget_min_charge v))"
  by (simp_all add: forget_min_charge_def get_eligible_vehicles_pred_def vehicle_needs_def time_prices_of_def
      reset_vehicle_def charge_vehicle_def bl_vehicle_def Let_def split_beta)


lemma static_update:
  assumes "\<And>v. static (g v) = static v"
  shows "map static (vs[j := g (vs ! j)]) = map static vs"
proof (cases "j < length vs")
  case True
  then have "(map static vs)[j := static (vs ! j)] = map static vs"
    by (metis list_update_id nth_map)
  with assms show ?thesis by (simp add: map_update)
next
  case False
  then show ?thesis by (simp add: list_update_beyond)
qed

lemma reset_eligible_static: "map static (reset_eligible js vs) = map static vs"
proof (induction js arbitrary: vs)
  case Nil
  then show ?case by simp
next
  case (Cons j js)
  have "map static (vs[j := reset_vehicle (vs ! j)]) = map static vs"
    by (rule static_update) (rule static_facts)
  with Cons.IH[of "vs[j := reset_vehicle (vs ! j)]"] show ?case by simp
qed

lemma distribute_back_static: "map static (distribute_back t u ir dr es vs) = map static vs"
proof (induction es arbitrary: vs)
  case Nil
  then show ?case by simp
next
  case (Cons e es)
  let ?vs1 = "vs[vehicle e := charge_vehicle t u ir dr (power_kw e) (vs ! vehicle e)]"
  have "map static ?vs1 = map static vs"
    by (rule static_update) (rule static_facts)
  with Cons.IH[of ?vs1] show ?case by simp
qed

lemma allocate_slot_static: "map static (snd (allocate_slot A row tn vs)) = map static vs"
  by (simp add: allocate_slot_def update_vehicles_def Let_def distribute_back_static)

lemma phase2_static: "map static (snd (phase2 A rows tsn vs)) = map static vs"
proof (induction A rows tsn vs rule: phase2.induct)
  case (1 A row rows tn tsn vs)
  from "1.IH"[OF refl prod.collapse] allocate_slot_static[of A row tn vs]
  show ?case by (simp add: Let_def split_beta)
qed simp_all

lemma bl_loop_static: "map static (snd (bl_loop srt js b vs)) = map static vs"
proof (induction js arbitrary: b vs)
  case Nil
  then show ?case by simp
next
  case (Cons j js)
  let ?vs1 = "vs[j := snd (bl_vehicle srt b (vs ! j))]"
  have "map static ?vs1 = map static vs"
    by (rule static_update) (rule static_facts)
  with Cons.IH[of "fst (bl_vehicle srt b (vs ! j))" ?vs1] show ?case by (simp add: split_beta)
qed

lemma optimized_strategy_static:
  "optimized_strategy dam i15 i60 vs s e A = Inr (rows, vs') \<Longrightarrow> map static vs' = map static vs"
  by (auto simp: optimized_strategy_def Let_def split_beta phase2_static reset_eligible_static
      split: sum.splits)

lemma baseline_strategy_static:
  "baseline_strategy srt dam vs s e = Inr (rows, vs') \<Longrightarrow> map static vs' = map static vs"
  by (auto simp: baseline_strategy_def Let_def split_beta bl_loop_static split: sum.splits)

section \<open>C6: independence of the baseline and the optimized run\<close>

text \<open>
  Claim C6. The rows (and so the costs) that the baseline strategy returns on the fleet
  left behind by an optimized run are those it returns on the fleet before that run, and
  the rows of the optimized strategy on the fleet left behind by a baseline run are those
  on the fleet before it: neither reads \<open>current_soc\<close> or \<open>charging_schedule\<close> as the other
  left them.
\<close>

theorem baseline_independence:
  "(optimized_strategy dam_prices idm_15_prices idm_60_prices vs s e DAM_ALLOCATION = Inr (rows_o, vs_o) \<longrightarrow>
      result_rows (baseline_strategy sort_values dam_prices vs_o s' e')
        = result_rows (baseline_strategy sort_values dam_prices vs s' e'))
   \<and> (baseline_strategy sort_values dam_prices vs s' e' = Inr (rows_b, vs_b) \<longrightarrow>
      result_rows (optimized_strategy dam_prices idm_15_prices idm_60_prices vs_b s e DAM_ALLOCATION)
        = result_rows (optimized_strategy dam_prices idm_15_prices idm_60_prices vs s e DAM_ALLOCATION))"
proof (intro conjI impI)
  assume "optimized_strategy dam_prices idm_15_prices idm_60_prices vs s e DAM_ALLOCATION = Inr (rows_o, vs_o)"
  then have rel: "map static vs_o = map static vs" by (rule optimized_strategy_static)
  have "result_rows (baseline_strategy sort_values dam_prices vs_o s' e')
        = result_rows (baseline_strategy sort_values dam_prices vs s' e')
      \<and> map_sum id (map static) (result_vehicles (baseline_strategy sort_values dam_prices vs_o s' e'))
        = map_sum id (map static) (result_vehicles (baseline_strategy sort_values dam_prices vs s' e'))"
    by (rule baseline_strategy_rel[OF _ _ rel]) (metis static_facts)+
  then show "result_rows (baseline_strategy sort_values dam_prices vs_o s' e')
        = result_rows (baseline_strategy sort_values dam_prices vs s' e')" by simp
next
  assume "baseline_strategy sort_values dam_prices vs s' e' = Inr (rows_b, vs_b)"
  then have rel: "map static vs_b = map static vs" by (rule baseline_strategy_static)
  have "result_rows (optimized_strategy dam_prices idm_15_prices idm_60_prices vs_b s e DAM_ALLOCATION)
        = result_rows (optimized_strategy dam_prices idm_15_prices idm_60_prices vs s e DAM_ALLOCATION)
      \<and> map_sum id (map static) (result_vehicles (optimized_strategy dam_prices idm_15_prices idm_60_prices vs_b s e DAM_ALLOCATION))
        = map_sum id (map static) (result_vehicles (optimized_strategy dam_prices idm_15_prices idm_60_prices vs s e DAM_ALLOCATION))"
    by (rule optimized_strategy_rel[OF _ _ _ _ rel]) (metis static_facts)+
  then show "result_rows (optimized_strategy dam_prices idm_15_prices idm_60_prices vs_b s e DAM_ALLOCATION)
        = result_rows (optimized_strategy dam_prices idm_15_prices idm_60_prices vs s e DAM_ALLOCATION)" by simp
qed


lemma ex_run_rows_2h:
  "result_rows (optimized_strategy [(0, 80), (3600, 70)] [(0, 60)] [(0, 70)] ex_fleet 0 (Some 900) (1/2)) = Inr [ex_row]"
  by code_simp

lemma ex_baseline_rows:
  "result_rows (baseline_strategy (sort_key bl_dam_price) [(0, 80), (3600, 70)] ex_fleet 0 (Some 7200)) = Inr ex_bl_rows"
  by code_simp

theorem baseline_independence_witness:
  "(\<exists>vs_o. optimized_strategy [(0, 80), (3600, 70)] [(0, 60)] [(0, 70)] ex_fleet 0 (Some 900) (1/2) = Inr ([ex_row], vs_o)
       \<and> result_rows (baseline_strategy (sort_key bl_dam_price) [(0, 80), (3600, 70)] vs_o 0 (Some 7200)) = Inr ex_bl_rows)
   \<and> (\<exists>vs_b. baseline_strategy (sort_key bl_dam_price) [(0, 80), (3600, 70)] ex_fleet 0 (Some 7200) = Inr (ex_bl_rows, vs_b)
       \<and> result_rows (optimized_strategy [(0, 80), (3600, 70)] [(0, 60)] [(0, 70)] vs_b 0 (Some 900) (1/2)) = Inr [ex_row])"
proof -
  obtain vs_o where o:
    "optimized_strategy [(0, 80), (3600, 70)] [(0, 60)] [(0, 70)] ex_fleet 0 (Some 900) (1/2) = Inr ([ex_row], vs_o)"
    using result_rows_Inr[OF ex_run_rows_2h] by blast
  obtain vs_b where b:
    "baseline_strategy (sort_key bl_dam_price) [(0, 80), (3600, 70)] ex_fleet 0 (Some 7200) = Inr (ex_bl_rows, vs_b)"
    using result_rows_Inr[OF ex_baseline_rows] by blast
  from baseline_independence[of "[(0, 80), (3600, 70)]" "[(0, 60)]" "[(0, 70)]" ex_fleet 0 "Some 900" "1/2"
      "[ex_row]" vs_o "sort_key bl_dam_price" 0 "Some 7200" ex_bl_rows vs_b] o b
  have "result_rows (baseline_strategy (sort_key bl_dam_price) [(0, 80), (3600, 70)] vs_o 0 (Some 7200)) = Inr ex_bl_rows"
    and "result_rows (optimized_strategy [(0, 80), (3600, 70)] [(0, 60)] [(0, 70)] vs_b 0 (Some 900) (1/2)) = Inr [ex_row]"
    using ex_baseline_rows ex_run_rows_2h by simp_all
  with o b show ?thesis by blast
qed

section \<open>C10: the minimum charging power is never read\<close>

text \<open>
  Claim C10. Two fleets that differ at most in the \<open>min_charge_kw\<close> stored on their
  vehicles give, under the optimized and under the baseline strategy, the same rows (and
  costs) and the same vehicle states up to that stored field. So a vehicle can be
  allocated a positive power below its \<open>min_charge_kw\<close>: the vehicle of the example has a
  minimum of 1.5 kW and is charged with 1 kW by the optimized strategy and with 0.25 kW
  by the baseline.
\<close>

theorem min_charge_kw_irrelevant:
  assumes "map forget_min_charge vs = map forget_min_charge vs'"
  shows "result_rows (optimized_strategy dam_prices idm_15_prices idm_60_prices vs s e DAM_ALLOCATION)
           = result_rows (optimized_strategy dam_prices idm_15_prices idm_60_prices vs' s e DAM_ALLOCATION)
       \<and> map_sum id (map forget_min_charge)
             (result_vehicles (optimized_strategy dam_prices idm_15_prices idm_60_prices vs s e DAM_ALLOCATION))
           = map_sum id (map forget_min_charge)
             (result_vehicles (optimized_strategy dam_prices idm_15_prices idm_60_prices vs' s e DAM_ALLOCATION))
       \<and> result_rows (baseline_strategy sort_values dam_prices vs s e)
           = result_rows (baseline_strategy sort_values dam_prices vs' s e)
       \<and> map_sum id (map forget_min_charge) (result_vehicles (baseline_strategy sort_values dam_prices vs s e))
           = map_sum id (map forget_min_charge) (result_vehicles (baseline_strategy sort_values dam_prices vs' s e))
       \<and> min_charge_kw ex_vehicle_small = 3/2
       \<and> result_schedule (optimized_strategy [(0, 80)] [] [] [ex_vehicle_small] 0 (Some 900) (1/20)) 0 0
           = Some (DAM 1)
       \<and> result_schedule (baseline_strategy (sort_key bl_dam_price) [(0, 80), (3600, 70)] [ex_vehicle_small] 0 (Some 7200)) 0 0
           = Some (Kw (1/4))"
proof -
  have o: "result_rows (optimized_strategy dam_prices idm_15_prices idm_60_prices vs s e DAM_ALLOCATION)
           = result_rows (optimized_strategy dam_prices idm_15_prices idm_60_prices vs' s e DAM_ALLOCATION)
       \<and> map_sum id (map forget_min_charge)
             (result_vehicles (optimized_strategy dam_prices idm_15_prices idm_60_prices vs s e DAM_ALLOCATION))
           = map_sum id (map forget_min_charge)
             (result_vehicles (optimized_strategy dam_prices idm_15_prices idm_60_prices vs' s e DAM_ALLOCATION))"
    by (rule optimized_strategy_rel[OF _ _ _ _ assms]) (metis forget_facts)+
  have b: "result_rows (baseline_strategy sort_values dam_prices vs s e)
           = result_rows (baseline_strategy sort_values dam_prices vs' s e)
       \<and> map_sum id (map forget_min_charge) (result_vehicles (baseline_strategy sort_values dam_prices vs s e))
           = map_sum id (map forget_min_charge) (result_vehicles (baseline_strategy sort_values dam_prices vs' s e))"
    by (rule baseline_strategy_rel[OF _ _ assms]) (metis forget_facts)+
  have x: "min_charge_kw ex_vehicle_small = 3/2
       \<and> result_schedule (optimized_strategy [(0, 80)] [] [] [ex_vehicle_small] 0 (Some 900) (1/20)) 0 0
           = Some (DAM 1)
       \<and> result_schedule (baseline_strategy (sort_key bl_dam_price) [(0, 80), (3600, 70)] [ex_vehicle_small] 0 (Some 7200)) 0 0
           = Some (Kw (1/4))"
    by code_simp
  from o b x show ?thesis by blast
qed


theorem min_charge_kw_irrelevant_witness:
  "map forget_min_charge [ex_vehicle_small] = map forget_min_charge [ex_vehicle_small\<lparr>min_charge_kw := 5\<rparr>]
   \<and> result_rows (optimized_strategy [(0, 80)] [] [] [ex_vehicle_small] 0 (Some 900) (1/20))
       = result_rows (optimized_strategy [(0, 80)] [] [] [ex_vehicle_small\<lparr>min_charge_kw := 5\<rparr>] 0 (Some 900) (1/20))
   \<and> result_rows (baseline_strategy (sort_key bl_dam_price) [(0, 80)] [ex_vehicle_small] 0 (Some 7200))
       = result_rows (baseline_strategy (sort_key bl_dam_price) [(0, 80)] [ex_vehicle_small\<lparr>min_charge_kw := 5\<rparr>] 0 (Some 7200))
   \<and> result_schedule (optimized_strategy [(0, 80)] [] [] [ex_vehicle_small\<lparr>min_charge_kw := 5\<rparr>] 0 (Some 900) (1/20)) 0 0
       = Some (DAM 1)"
proof -
  have h: "map forget_min_charge [ex_vehicle_small] = map forget_min_charge [ex_vehicle_small\<lparr>min_charge_kw := 5\<rparr>]"
    by (simp add: forget_min_charge_def)
  have x: "result_schedule (optimized_strategy [(0, 80)] [] [] [ex_vehicle_small\<lparr>min_charge_kw := 5\<rparr>] 0 (Some 900) (1/20)) 0 0
       = Some (DAM 1)"
    by code_simp
  from min_charge_kw_irrelevant[OF h, of "[(0, 80)]" "[]" "[]" 0 "Some 900" "1/20" "sort_key bl_dam_price"]
    min_charge_kw_irrelevant[OF h, of "[(0, 80)]" "[]" "[]" 0 "Some 7200" "1/20" "sort_key bl_dam_price"] h x
  show ?thesis by simp
qed

section \<open>C4: the state of charge along one optimized pass\<close>

lemma optimized_strategy_phase2:
  "optimized_strategy dam i15 i60 vs s e A =
     (case phase1_state dam i15 i60 vs s e of
        Inl err \<Rightarrow> Inl err
      | Inr (optimized, tsn, vs1) \<Rightarrow>
          Inr (map calc_costs (fst (phase2 A optimized tsn vs1)), snd (phase2 A optimized tsn vs1)))"
  by (simp add: optimized_strategy_def phase1_state_def Let_def split_beta split: sum.splits)

lemma phase2_trace_hd: "phase2_trace A rows tsn vs ! 0 = vs"
  by (induction A rows tsn vs rule: phase2_trace.induct) simp_all

lemma phase2_trace_last: "last (phase2_trace A rows tsn vs) = snd (phase2 A rows tsn vs)"
proof (induction A rows tsn vs rule: phase2_trace.induct)
  case (1 A row rows tn tsn vs)
  have ne: "phase2_trace A rows tsn (snd (allocate_slot A row tn vs)) \<noteq> []"
    by (cases rows; cases tsn) simp_all
  with 1 show ?case by (simp add: Let_def split_beta)
qed simp_all

lemma charge_vehicle_capacity [simp]:
  "capacity_kwh (charge_vehicle t u ir dr p v) = capacity_kwh v"
  by (simp add: charge_vehicle_def Let_def)

lemma fold_charge_soc:
  "capacity_kwh (fold (\<lambda>e v. if vehicle e = j then charge_vehicle t u ir dr (power_kw e) v else v) es v)
     = capacity_kwh v \<and>
   current_soc (fold (\<lambda>e v. if vehicle e = j then charge_vehicle t u ir dr (power_kw e) v else v) es v)
     = current_soc v + booked j es * (ir + dr) / capacity_kwh v"
proof (induction es arbitrary: v)
  case Nil
  then show ?case by (simp add: booked_def)
next
  case (Cons e es)
  show ?case
  proof (cases "vehicle e = j")
    case True
    have "current_soc (charge_vehicle t u ir dr (power_kw e) v)
        = current_soc v + (power_kw e * (1/4)) * (ir + dr) / capacity_kwh v"
      by (simp add: charge_vehicle_soc add_divide_distrib distrib_left mult.commute)
    with True Cons.IH[of "charge_vehicle t u ir dr (power_kw e) v"] show ?thesis
      by (simp add: booked_def add_divide_distrib distrib_right)
  next
    case False
    with Cons.IH[of v] show ?thesis by (simp add: booked_def)
  qed
qed

lemma ratio_sum: "0 < d \<Longrightarrow> of_int (idm_actual_kw A d) / d + dam_actual_kw A d / d = 1"
  by (simp add: dam_actual_kw_def add_divide_distrib [symmetric])

lemma allocate_slot_soc:
  assumes j: "j < length vs" and ok: "sn_ok (snd tn)"
  shows "capacity_kwh (snd (allocate_slot A row tn vs) ! j) = capacity_kwh (vs ! j)"
    and "current_soc (snd (allocate_slot A row tn vs) ! j)
           = current_soc (vs ! j) + booked j (vehicles (snd tn)) / capacity_kwh (vs ! j)"
proof -
  show "capacity_kwh (snd (allocate_slot A row tn vs) ! j) = capacity_kwh (vs ! j)"
    using j fold_charge_soc
    by (simp add: allocate_slot_def update_vehicles_def Let_def distribute_back_nth)
  show "current_soc (snd (allocate_slot A row tn vs) ! j)
           = current_soc (vs ! j) + booked j (vehicles (snd tn)) / capacity_kwh (vs ! j)"
  proof (cases "vehicles (snd tn) = []")
    case True
    then show ?thesis by (simp add: allocate_slot_def booked_def)
  next
    case False
    with ok have d: "0 < total_power_kw (snd tn)" by (simp add: sn_ok_pos)
    with False j show ?thesis
      by (simp add: allocate_slot_def update_vehicles_def Let_def distribute_back_nth
          fold_charge_soc ratio_sum)
  qed
qed

lemma length_allocate_slot [simp]: "length (snd (allocate_slot A row tn vs)) = length vs"
  by (simp add: allocate_slot_def update_vehicles_def Let_def)

lemma booked_nonneg: "sn_ok sn \<Longrightarrow> 0 \<le> booked j (vehicles sn)"
  by (auto simp: sn_ok_def booked_def list_all_iff less_imp_le intro!: sum_list_nonneg)

lemma pending_nonneg: "list_all (\<lambda>tn. sn_ok (snd tn)) tsn \<Longrightarrow> 0 \<le> pending j tsn"
  by (auto simp: pending_def list_all_iff intro!: sum_list_nonneg booked_nonneg)


lemma phase2_trace_mono:
  "list_all (\<lambda>tn. sn_ok (snd tn)) tsn \<Longrightarrow> j < length vs \<Longrightarrow> 0 < capacity_kwh (vs ! j) \<Longrightarrow>
     Suc k < length (phase2_trace A rows tsn vs) \<Longrightarrow>
     current_soc (phase2_trace A rows tsn vs ! k ! j) \<le> current_soc (phase2_trace A rows tsn vs ! Suc k ! j)"
proof (induction A rows tsn vs arbitrary: k rule: phase2_trace.induct)
  case (1 A row rows tn tsn vs)
  let ?vs' = "snd (allocate_slot A row tn vs)"
  from "1.prems"(1) have ok: "sn_ok (snd tn)" and oks: "list_all (\<lambda>tn. sn_ok (snd tn)) tsn" by simp_all
  note st = allocate_slot_soc[OF "1.prems"(2) ok, of A row]
  have j': "j < length ?vs'" using "1.prems"(2) by simp
  have cap': "0 < capacity_kwh (?vs' ! j)" using st(1) "1.prems"(3) by simp
  show ?case
  proof (cases k)
    case 0
    have "0 \<le> booked j (vehicles (snd tn)) / capacity_kwh (vs ! j)"
      using booked_nonneg[OF ok, of j] "1.prems"(3) by simp
    with st(2) have "current_soc (vs ! j) \<le> current_soc (?vs' ! j)" by simp
    with 0 show ?thesis by (simp add: phase2_trace_hd)
  next
    case (Suc k')
    with "1.prems"(4) have "Suc k' < length (phase2_trace A rows tsn ?vs')" by simp
    from "1.IH"[OF oks j' cap' this] Suc show ?thesis by simp
  qed
qed simp_all

lemma pending_Nil: "pending j [] = 0"
  by (simp add: pending_def)

lemma pending_div_nonneg:
  "list_all (\<lambda>tn. sn_ok (snd tn)) tsn \<Longrightarrow> 0 < c \<Longrightarrow> 0 \<le> pending j tsn / c"
  using pending_nonneg[of tsn j] by simp

lemma phase2_final_soc:
  "list_all (\<lambda>tn. sn_ok (snd tn)) tsn \<Longrightarrow> j < length vs \<Longrightarrow> 0 < capacity_kwh (vs ! j) \<Longrightarrow>
     current_soc (snd (phase2 A rows tsn vs) ! j)
       \<le> current_soc (vs ! j) + pending j tsn / capacity_kwh (vs ! j)"
proof (induction A rows tsn vs rule: phase2.induct)
  case (1 A row rows tn tsn vs)
  let ?vs' = "snd (allocate_slot A row tn vs)"
  from "1.prems"(1) have ok: "sn_ok (snd tn)" and oks: "list_all (\<lambda>tn. sn_ok (snd tn)) tsn" by simp_all
  note st = allocate_slot_soc[OF "1.prems"(2) ok, of A row]
  have j': "j < length ?vs'" using "1.prems"(2) by simp
  have cap': "0 < capacity_kwh (?vs' ! j)" using st(1) "1.prems"(3) by simp
  from "1.IH"[OF refl prod.collapse oks j' cap']
  have "current_soc (snd (phase2 A rows tsn ?vs') ! j)
      \<le> current_soc (vs ! j) + booked j (vehicles (snd tn)) / capacity_kwh (vs ! j)
          + pending j tsn / capacity_kwh (vs ! j)"
    using st by simp
  then show ?case by (simp add: Let_def split_beta pending_def add_divide_distrib)
qed (simp_all add: pending_div_nonneg pending_Nil)

lemma record_need_absent: "t \<notin> fst ` set tsn \<Longrightarrow> record_need tsn t k e p = tsn"
  by (induction tsn) (auto simp: record_need_def)

lemma booked_add_need:
  "booked j (vehicles (add_need k e p sn)) = booked j (vehicles sn) + (if k = j then p * (1/4) else 0)"
  by (simp add: booked_def add_need_def)

lemma pending_record_need_other: "k \<noteq> j \<Longrightarrow> pending j (record_need tsn t k e p) = pending j tsn"
  by (induction tsn) (auto simp: pending_def record_need_def booked_add_need)

lemma pending_record_need_le:
  "distinct (map fst tsn) \<Longrightarrow> 0 \<le> p \<Longrightarrow> pending j (record_need tsn t j e p) \<le> pending j tsn + p * (1/4)"
proof (induction tsn)
  case Nil
  then show ?case by (simp add: pending_def record_need_def)
next
  case (Cons tn tsn)
  show ?case
  proof (cases "fst tn = t")
    case True
    with Cons.prems(1) have "t \<notin> fst ` set tsn" by auto
    then have "record_need tsn t j e p = tsn" by (rule record_need_absent)
    then have "record_need (tn # tsn) t j e p = (fst tn, add_need j e p (snd tn)) # tsn"
      using True by (simp add: record_need_def)
    then show ?thesis by (simp add: pending_def booked_add_need)
  next
    case False
    then have "record_need (tn # tsn) t j e p = tn # record_need tsn t j e p"
      by (simp add: record_need_def)
    with Cons show ?thesis by (simp add: pending_def)
  qed
qed

lemma pending_distribute_energy_other:
  "k \<noteq> j \<Longrightarrow> pending j (distribute_energy k mx rem tps tsn) = pending j tsn"
proof (induction tps arbitrary: rem tsn)
  case Nil
  then show ?case by simp
next
  case (Cons tp tps)
  then show ?case
    unfolding distribute_energy_Cons by (simp add: pending_record_need_other)
qed

lemma pending_distribute_energy_le:
  "distinct (map fst tsn) \<Longrightarrow> 0 \<le> rem \<Longrightarrow>
     pending j (distribute_energy j mx rem tps tsn) \<le> pending j tsn + rem"
proof (induction tps arbitrary: rem tsn)
  case Nil
  then show ?case by simp
next
  case (Cons tp tps)
  let ?a = "min (mx * (1/4)) rem"
  show ?case
  proof (cases "rem \<le> 0")
    case True
    with Cons.prems show ?thesis unfolding distribute_energy_Cons by simp
  next
    case rp: False
    show ?thesis
    proof (cases "0 < ?a")
      case False
      with rp have "distribute_energy j mx rem (tp # tps) tsn = distribute_energy j mx rem tps tsn"
        unfolding distribute_energy_Cons by simp
      with Cons.IH[OF Cons.prems] show ?thesis by simp
    next
      case pos: True
      let ?tsn' = "record_need tsn (fst tp) j ?a (?a / (1/4))"
      have d': "distinct (map fst ?tsn')" using Cons.prems(1) by (simp add: record_need_times)
      have r': "0 \<le> rem - ?a" by simp
      have "pending j ?tsn' \<le> pending j tsn + (?a / (1/4)) * (1/4)"
        using Cons.prems(1) pos by (intro pending_record_need_le) simp_all
      then have a: "pending j ?tsn' \<le> pending j tsn + ?a" by simp
      from Cons.IH[OF d' r']
      have "pending j (distribute_energy j mx (rem - ?a) tps ?tsn') \<le> pending j ?tsn' + (rem - ?a)" .
      with a have b: "pending j (distribute_energy j mx (rem - ?a) tps ?tsn') \<le> pending j tsn + rem" by simp
      from pos rp have "distribute_energy j mx rem (tp # tps) tsn = distribute_energy j mx (rem - ?a) tps ?tsn'"
        unfolding distribute_energy_Cons by simp
      with b show ?thesis by simp
    qed
  qed
qed

lemma pending_vehicle_needs_other:
  "k \<noteq> j \<Longrightarrow> pending j (vehicle_needs optimized k v tsn) = pending j tsn"
  by (simp add: vehicle_needs_def Let_def pending_distribute_energy_other)

lemma pending_vehicle_needs_le:
  assumes "distinct (map fst tsn)"
  shows "pending j (vehicle_needs optimized j v tsn)
           \<le> pending j tsn + max 0 ((target_soc v - return_soc v) * capacity_kwh v)"
proof (cases "(target_soc v - return_soc v) * capacity_kwh v \<le> 0")
  case True
  then show ?thesis by (simp add: vehicle_needs_def Let_def)
next
  case False
  then have "0 \<le> (target_soc v - return_soc v) * capacity_kwh v" by simp
  from pending_distribute_energy_le[OF assms this] False show ?thesis
    by (simp add: vehicle_needs_def Let_def max_def)
qed

lemma pending_phase1_other:
  "j \<notin> set js \<Longrightarrow> pending j (phase1 optimized vs js tsn) = pending j tsn"
  by (induction js arbitrary: tsn) (auto simp: pending_vehicle_needs_other)

lemma pending_phase1_le:
  "distinct js \<Longrightarrow> distinct (map fst tsn) \<Longrightarrow> j \<in> set js \<Longrightarrow>
     pending j (phase1 optimized vs js tsn)
       \<le> pending j tsn + max 0 ((target_soc (vs ! j) - return_soc (vs ! j)) * capacity_kwh (vs ! j))"
proof (induction js arbitrary: tsn)
  case Nil
  then show ?case by simp
next
  case (Cons k js)
  show ?case
  proof (cases "k = j")
    case True
    with Cons.prems(1) have "j \<notin> set js" by simp
    then have "pending j (phase1 optimized vs js (vehicle_needs optimized j (vs ! j) tsn))
        = pending j (vehicle_needs optimized j (vs ! j) tsn)" by (rule pending_phase1_other)
    with pending_vehicle_needs_le[OF Cons.prems(2), of j optimized "vs ! j"] True show ?thesis by simp
  next
    case False
    with Cons.prems have a: "distinct js" "j \<in> set js" by simp_all
    have d: "distinct (map fst (vehicle_needs optimized k (vs ! k) tsn))"
      using Cons.prems(2) by (simp add: vehicle_needs_times)
    from Cons.IH[OF a(1) d a(2)] pending_vehicle_needs_other[OF False, of optimized "vs ! k" tsn]
    show ?thesis by simp
  qed
qed

lemma pending_init: "pending j (init_time_slot_needs ts) = 0"
  by (induction ts) (simp_all add: pending_def init_time_slot_needs_def booked_def)

lemma opt_schedule_times_distinct: "opt_schedule_times s e = Inr ts \<Longrightarrow> distinct ts"
  by (auto simp: opt_schedule_times_def date_range_def distinct_map inj_on_def split: if_splits)

lemma get_eligible_vehicles_distinct: "distinct (get_eligible_vehicles vs s e)"
  by (simp add: get_eligible_vehicles_def)

lemma reset_eligible_nth:
  "j < length vs \<Longrightarrow>
     reset_eligible js vs ! j = (if j \<in> set js then reset_vehicle (vs ! j) else vs ! j)"
proof (induction js arbitrary: vs)
  case Nil
  then show ?case by simp
next
  case (Cons k js)
  have idem: "reset_vehicle (reset_vehicle v) = reset_vehicle v" for v
    by (simp add: reset_vehicle_def)
  from Cons.prems have "j < length (vs[k := reset_vehicle (vs ! k)])" by simp
  from Cons.IH[OF this] Cons.prems show ?case
    by (cases "k = j") (simp_all add: idem)
qed

lemma phase1_state_cases:
  assumes "phase1_state dam i15 i60 vs s e = Inr (optimized, tsn, vs1)"
  shows "\<exists>ts. opt_schedule_times s (resolve_end s e) = Inr ts
           \<and> vs1 = reset_eligible (get_eligible_vehicles vs s (resolve_end s e)) vs
           \<and> tsn = phase1 optimized vs1 (get_eligible_vehicles vs s (resolve_end s e)) (init_time_slot_needs ts)"
  using assms by (auto simp: phase1_state_def Let_def split: sum.splits prod.splits)

lemma static_target: "static v = static v' \<Longrightarrow> target_soc v = target_soc v'"
  by (metis (no_types) static_def vehicle.select_convs(6) vehicle.surjective vehicle.update_convs(7,11))

lemma max_need_bound:
  assumes "0 < (c::rat)" "r \<le> t"
  shows "r + max 0 ((t - r) * c) / c \<le> t"
proof (cases "(t - r) * c \<le> 0")
  case True
  with assms show ?thesis by (simp add: max_def)
next
  case False
  with assms show ?thesis by (simp add: max_def)
qed

text \<open>With the identity as rounding, the pass in double precision is the exact pass.\<close>

lemma add_need_fp_exact: "add_need_fp (\<lambda>x. x) = add_need"
  by (intro ext) (simp add: add_need_fp_def add_need_def)

lemma record_need_fp_exact: "record_need_fp (\<lambda>x. x) = record_need"
  by (intro ext) (simp add: record_need_fp_def record_need_def add_need_fp_exact)

lemma distribute_energy_fp_exact:
  "distribute_energy_fp (\<lambda>x. x) j mx rem tps tsn = distribute_energy j mx rem tps tsn"
  by (induction tps arbitrary: rem tsn) (simp_all add: Let_def record_need_fp_exact)

lemma vehicle_needs_fp_exact: "vehicle_needs_fp (\<lambda>x. x) = vehicle_needs"
  by (intro ext) (simp add: vehicle_needs_fp_def vehicle_needs_def distribute_energy_fp_exact Let_def)

lemma phase1_fp_exact: "phase1_fp (\<lambda>x. x) optimized vs js tsn = phase1 optimized vs js tsn"
  by (induction js arbitrary: tsn) (simp_all add: vehicle_needs_fp_exact)

lemma idm_actual_kw_fp_exact: "idm_actual_kw_fp (\<lambda>x. x) = idm_actual_kw"
  by (intro ext) (simp add: idm_actual_kw_fp_def idm_actual_kw_def)

lemma dam_actual_kw_fp_exact: "dam_actual_kw_fp (\<lambda>x. x) = dam_actual_kw"
  by (intro ext) (simp add: dam_actual_kw_fp_def dam_actual_kw_def idm_actual_kw_fp_exact)

lemma charge_vehicle_fp_exact: "charge_vehicle_fp (\<lambda>x. x) = charge_vehicle"
  by (intro ext) (simp add: charge_vehicle_fp_def charge_vehicle_def)

lemma distribute_back_fp_exact:
  "distribute_back_fp (\<lambda>x. x) t u ir dr es vs = distribute_back t u ir dr es vs"
  by (induction es arbitrary: vs) (simp_all add: charge_vehicle_fp_exact)

lemma update_vehicles_fp_exact: "update_vehicles_fp (\<lambda>x. x) = update_vehicles"
  by (intro ext)
    (simp add: update_vehicles_fp_def update_vehicles_def idm_actual_kw_fp_exact dam_actual_kw_fp_exact
      distribute_back_fp_exact Let_def)

lemma phase2_fp_exact: "phase2_fp (\<lambda>x. x) A rows tsn vs = snd (phase2 A rows tsn vs)"
  by (induction A rows tsn vs rule: phase2.induct)
    (simp_all add: Let_def split_beta allocate_slot_def update_vehicles_fp_exact)

lemma optimized_strategy_fp_exact:
  "optimized_strategy_fp (\<lambda>x. x) dam i15 i60 vs s e A = result_vehicles (optimized_strategy dam i15 i60 vs s e A)"
  by (simp add: optimized_strategy_fp_def optimized_strategy_def result_vehicles_def Let_def split_beta
      phase1_fp_exact phase2_fp_exact split: sum.splits)

lemma ex_doubles:
  "round_double (9/10) = target_soc ex_vehicle_dbl \<and> round_double (2/5) = return_soc ex_vehicle_dbl
   \<and> round_double (1/20) = ex_allocation
   \<and> round_double (round_double (target_soc ex_vehicle_dbl - return_soc ex_vehicle_dbl) * 47)
        = energy_needed_kwh ex_vehicle_dbl
   \<and> round_double (1/10) = 3602879701896397 / 36028797018963968
   \<and> round_double (1/3) = 6004799503160661 / 18014398509481984
   \<and> round_double (1/4) = 1/4 \<and> round_double 47 = 47
   \<and> round_double 9007199254740993 = 9007199254740992
   \<and> round_double 9007199254740995 = 9007199254740996
   \<and> round_double (- (1/10)) = - round_double (1/10)"
  by code_simp

text \<open>
  Claim C4 as stated fails in the arithmetic of the source. For the vehicle of the
  example (47 kWh, 11 kW, returning with 0.4, target 0.9, a stay of three hours, the
  default allocation 0.05) the pass computed in double precision books 6 kW in the slot
  at time 0 and 11 kW in the eight slots of the two cheaper hours; every slot adds the
  rounded quotient of its energy and the capacity to \<open>current_soc\<close>, nothing clamps the
  sum, and it ends three units in the last place above \<open>target_soc\<close>: Python prints
  0.9000000000000004 against 0.9.
\<close>

theorem soc_exceeds_target_counterexample:
  "final_socs (optimized_strategy_fp round_double [(0, 80), (3600, 70), (7200, 60)] [] [] [ex_vehicle_dbl]
       0 (Some 10800) ex_allocation)
     = Inr [(8106479329266896 / 9007199254740992, 8106479329266893 / 9007199254740992)]
   \<and> target_soc ex_vehicle_dbl = 8106479329266893 / 9007199254740992
   \<and> return_soc ex_vehicle_dbl \<le> target_soc ex_vehicle_dbl
   \<and> (8106479329266893 :: rat) / 9007199254740992 < 8106479329266896 / 9007199254740992"
  by code_simp

text \<open>
  Claim C4, amended. Along one optimized pass the \<open>current_soc\<close> of a vehicle with
  positive capacity never decreases from one slot to the next. When no operation rounds
  (the pass with the identity as rounding, which is the exact pass), the state of charge
  at the end of the pass, that of the vehicles \<open>optimized_strategy\<close> leaves behind, does
  not exceed the vehicle's \<open>target_soc\<close>, provided the state of charge the pass starts
  from does not: that is \<open>return_soc\<close> for a vehicle of the simulation window, which the
  pass resets, and the untouched \<open>current_soc\<close> otherwise. In double precision the
  rounding of the accumulated sum can put the final state of charge above the target, as
  the example above shows.
\<close>

theorem monotonic_soc:
  assumes hist: "soc_history dam_prices idm_15_prices idm_60_prices vs s e DAM_ALLOCATION = Inr hist"
    and j: "j < length vs"
    and cap: "0 < capacity_kwh (vs ! j)"
  shows "(\<forall>k. Suc k < length hist \<longrightarrow> current_soc (hist ! k ! j) \<le> current_soc (hist ! Suc k ! j))
       \<and> result_vehicles (optimized_strategy dam_prices idm_15_prices idm_60_prices vs s e DAM_ALLOCATION)
           = Inr (last hist)
       \<and> optimized_strategy_fp (\<lambda>x. x) dam_prices idm_15_prices idm_60_prices vs s e DAM_ALLOCATION
           = Inr (last hist)
       \<and> target_soc (last hist ! j) = target_soc (vs ! j)
       \<and> ((if get_eligible_vehicles_pred s (resolve_end s e) (vs ! j)
            then return_soc (vs ! j) else current_soc (vs ! j)) \<le> target_soc (vs ! j)
           \<longrightarrow> current_soc (last hist ! j) \<le> target_soc (last hist ! j))"
proof -
  from hist obtain optimized tsn vs1 where
    p1: "phase1_state dam_prices idm_15_prices idm_60_prices vs s e = Inr (optimized, tsn, vs1)" and
    h: "hist = phase2_trace DAM_ALLOCATION optimized tsn vs1"
    by (auto simp: soc_history_def split: sum.splits prod.splits)
  let ?js = "get_eligible_vehicles vs s (resolve_end s e)"
  from phase1_state_cases[OF p1] obtain ts where
    ts: "opt_schedule_times s (resolve_end s e) = Inr ts" and
    vs1: "vs1 = reset_eligible ?js vs" and
    tsn: "tsn = phase1 optimized vs1 ?js (init_time_slot_needs ts)"
    by blast
  have oks: "list_all (\<lambda>tn. sn_ok (snd tn)) tsn"
    unfolding tsn by (rule phase1_ok) (rule init_needs_ok)
  have j1: "j < length vs1" using j by (simp add: vs1)
  have el: "j \<in> set ?js \<longleftrightarrow> get_eligible_vehicles_pred s (resolve_end s e) (vs ! j)"
    using j by (simp add: get_eligible_vehicles_def)
  have v1: "vs1 ! j = (if j \<in> set ?js then reset_vehicle (vs ! j) else vs ! j)"
    unfolding vs1 using j by (rule reset_eligible_nth)
  have cap1: "capacity_kwh (vs1 ! j) = capacity_kwh (vs ! j)"
    by (simp add: v1 reset_vehicle_def)
  have cap1': "0 < capacity_kwh (vs1 ! j)" using cap cap1 by simp
  have mono: "\<forall>k. Suc k < length hist \<longrightarrow> current_soc (hist ! k ! j) \<le> current_soc (hist ! Suc k ! j)"
    unfolding h using phase2_trace_mono[OF oks j1 cap1'] by blast
  have lasth: "last hist = snd (phase2 DAM_ALLOCATION optimized tsn vs1)"
    unfolding h by (rule phase2_trace_last)
  have res: "result_vehicles (optimized_strategy dam_prices idm_15_prices idm_60_prices vs s e DAM_ALLOCATION)
           = Inr (last hist)"
    by (simp add: optimized_strategy_phase2 p1 result_vehicles_def lasth)
  have fpx: "optimized_strategy_fp (\<lambda>x. x) dam_prices idm_15_prices idm_60_prices vs s e DAM_ALLOCATION
           = Inr (last hist)"
    using res by (simp add: optimized_strategy_fp_exact)
  have ms: "map static (last hist) = map static vs"
    unfolding lasth vs1 by (simp add: phase2_static reset_eligible_static)
  from rel_length[OF ms] j have "j < length (last hist)" by simp
  with ms have "static (last hist ! j) = static (vs ! j)" by (rule rel_nth)
  then have tgt: "target_soc (last hist ! j) = target_soc (vs ! j)" by (rule static_target)
  have fin: "current_soc (last hist ! j) \<le> current_soc (vs1 ! j) + pending j tsn / capacity_kwh (vs ! j)"
    unfolding lasth using phase2_final_soc[OF oks j1 cap1'] cap1 by simp
  have keys: "distinct (map fst (init_time_slot_needs ts))"
    using opt_schedule_times_distinct[OF ts] by (simp add: init_needs_times)
  have bound: "current_soc (last hist ! j) \<le> target_soc (last hist ! j)"
    if st: "(if get_eligible_vehicles_pred s (resolve_end s e) (vs ! j)
            then return_soc (vs ! j) else current_soc (vs ! j)) \<le> target_soc (vs ! j)"
  proof (cases "j \<in> set ?js")
    case True
    from pending_phase1_le[OF get_eligible_vehicles_distinct keys True, of optimized vs1]
    have "pending j tsn \<le> max 0 ((target_soc (vs1 ! j) - return_soc (vs1 ! j)) * capacity_kwh (vs1 ! j))"
      by (simp add: tsn pending_init)
    also have "\<dots> = max 0 ((target_soc (vs ! j) - return_soc (vs ! j)) * capacity_kwh (vs ! j))"
      using True by (simp add: v1 reset_vehicle_def)
    finally have "pending j tsn / capacity_kwh (vs ! j)
        \<le> max 0 ((target_soc (vs ! j) - return_soc (vs ! j)) * capacity_kwh (vs ! j)) / capacity_kwh (vs ! j)"
      using cap by (simp add: divide_right_mono)
    moreover have "current_soc (vs1 ! j) = return_soc (vs ! j)"
      using True by (simp add: v1 reset_vehicle_def)
    moreover from st True el have "return_soc (vs ! j) \<le> target_soc (vs ! j)" by simp
    note max_need_bound[OF cap this]
    ultimately show ?thesis using fin tgt by simp
  next
    case False
    then have "pending j tsn = 0" by (simp add: tsn pending_phase1_other pending_init)
    moreover from False have "current_soc (vs1 ! j) = current_soc (vs ! j)" by (simp add: v1)
    moreover from st False el have "current_soc (vs ! j) \<le> target_soc (vs ! j)" by simp
    ultimately show ?thesis using fin tgt by simp
  qed
  from mono res fpx tgt bound show ?thesis by blast
qed


lemma ex_history:
  "history_socs (soc_history [(0, 80), (3600, 70)] [] [] [ex_vehicle3] 0 (Some 7200) (1/20)) 0
     = Inr [7/10, 7/10, 61/80, 61/80, 61/80, 133/160, 9/10, 9/10, 9/10]"
  by code_simp

theorem monotonic_soc_witness:
  "history_socs (soc_history [(0, 80), (3600, 70)] [] [] [ex_vehicle3] 0 (Some 7200) (1/20)) 0
     = Inr [7/10, 7/10, 61/80, 61/80, 61/80, 133/160, 9/10, 9/10, 9/10]
   \<and> 0 < length [ex_vehicle3] \<and> 0 < capacity_kwh ([ex_vehicle3] ! 0)
   \<and> get_eligible_vehicles_pred 0 (resolve_end 0 (Some 7200)) ([ex_vehicle3] ! 0)
   \<and> return_soc ([ex_vehicle3] ! 0) \<le> target_soc ([ex_vehicle3] ! 0)
   \<and> (\<exists>hist. soc_history [(0, 80), (3600, 70)] [] [] [ex_vehicle3] 0 (Some 7200) (1/20) = Inr hist
         \<and> length hist = 9
         \<and> current_soc (hist ! 1 ! 0) \<le> current_soc (hist ! 2 ! 0)
         \<and> current_soc (last hist ! 0) \<le> target_soc (last hist ! 0)
         \<and> result_vehicles (optimized_strategy [(0, 80), (3600, 70)] [] [] [ex_vehicle3] 0 (Some 7200) (1/20))
             = Inr (last hist))"
proof -
  from ex_history obtain hist where
    h: "soc_history [(0, 80), (3600, 70)] [] [] [ex_vehicle3] 0 (Some 7200) (1/20) = Inr hist" and
    m: "map (\<lambda>vs. current_soc (vs ! 0)) hist = [7/10, 7/10, 61/80, 61/80, 61/80, 133/160, 9/10, 9/10, 9/10]"
    by (auto simp: history_socs_def split: sum.splits)
  have "length (map (\<lambda>vs. current_soc (vs ! 0)) hist) = 9" unfolding m by simp
  then have len: "length hist = 9" by simp
  have j: "0 < length [ex_vehicle3]" by simp
  have c: "0 < capacity_kwh ([ex_vehicle3] ! 0)" by (simp add: ex_vehicle3_def)
  have e: "get_eligible_vehicles_pred 0 (resolve_end 0 (Some 7200)) ([ex_vehicle3] ! 0)"
    by (simp add: get_eligible_vehicles_pred_def resolve_end_def ex_vehicle3_def)
  have r: "return_soc ([ex_vehicle3] ! 0) \<le> target_soc ([ex_vehicle3] ! 0)"
    by (simp add: ex_vehicle3_def)
  note th = monotonic_soc[OF h j c]
  from th have a: "\<forall>k. Suc k < length hist \<longrightarrow> current_soc (hist ! k ! 0) \<le> current_soc (hist ! Suc k ! 0)"
    by (rule conjunct1)
  from a[rule_format, of 1] len have s1: "current_soc (hist ! 1 ! 0) \<le> current_soc (hist ! 2 ! 0)"
    by (simp add: numeral_2_eq_2)
  from th have s2: "result_vehicles (optimized_strategy [(0, 80), (3600, 70)] [] [] [ex_vehicle3] 0 (Some 7200) (1/20))
             = Inr (last hist)"
    by (rule conjunct2[THEN conjunct1])
  from th e r have s3: "current_soc (last hist ! 0) \<le> target_soc (last hist ! 0)"
    by simp
  from h len s1 s2 s3 have "\<exists>hist. soc_history [(0, 80), (3600, 70)] [] [] [ex_vehicle3] 0 (Some 7200) (1/20) = Inr hist
         \<and> length hist = 9
         \<and> current_soc (hist ! 1 ! 0) \<le> current_soc (hist ! 2 ! 0)
         \<and> current_soc (last hist ! 0) \<le> target_soc (last hist ! 0)
         \<and> result_vehicles (optimized_strategy [(0, 80), (3600, 70)] [] [] [ex_vehicle3] 0 (Some 7200) (1/20))
             = Inr (last hist)" by blast
  with ex_history j c e r show ?thesis by blast
qed


section \<open>C2: proportional distribution to the vehicles\<close>

lemma record_need_set:
  "set (record_need tsn t j e p) =
     (\<lambda>tn. if fst tn = t then (fst tn, add_need j e p (snd tn)) else tn) ` set tsn"
  by (simp add: record_need_def)

lemma slot_vehicles_add:
  "slot_vehicles (t, add_need j e p (snd tn)) = slot_vehicles tn @ [j]"
  by (simp add: slot_vehicles_def add_need_def)

lemma distribute_energy_vehicles:
  "distinct (map fst tps) \<Longrightarrow>
   \<forall>tn \<in> set tsn. distinct (slot_vehicles tn) \<and> set (slot_vehicles tn) \<subseteq> insert j J
       \<and> (j \<in> set (slot_vehicles tn) \<longrightarrow> fst tn \<notin> fst ` set tps) \<Longrightarrow>
   \<forall>tn \<in> set (distribute_energy j mx rem tps tsn).
       distinct (slot_vehicles tn) \<and> set (slot_vehicles tn) \<subseteq> insert j J"
proof (induction tps arbitrary: rem tsn)
  case Nil
  then show ?case by simp
next
  case (Cons tp tps)
  let ?a = "min (mx * (1/4)) rem"
  from Cons.prems(1) have d: "distinct (map fst tps)" and nt: "fst tp \<notin> fst ` set tps" by auto
  have weak: "\<forall>tn \<in> set tsn. distinct (slot_vehicles tn) \<and> set (slot_vehicles tn) \<subseteq> insert j J
       \<and> (j \<in> set (slot_vehicles tn) \<longrightarrow> fst tn \<notin> fst ` set tps)"
    using Cons.prems(2) by auto
  show ?case
  proof (cases "rem \<le> 0")
    case True
    with Cons.prems(2) show ?thesis unfolding distribute_energy_Cons by auto
  next
    case rp: False
    show ?thesis
    proof (cases "0 < ?a")
      case False
      with rp have "distribute_energy j mx rem (tp # tps) tsn = distribute_energy j mx rem tps tsn"
        unfolding distribute_energy_Cons by simp
      with Cons.IH[OF d weak] show ?thesis by simp
    next
      case pos: True
      let ?tsn' = "record_need tsn (fst tp) j ?a (?a / (1/4))"
      have inv': "\<forall>tn \<in> set ?tsn'. distinct (slot_vehicles tn) \<and> set (slot_vehicles tn) \<subseteq> insert j J
         \<and> (j \<in> set (slot_vehicles tn) \<longrightarrow> fst tn \<notin> fst ` set tps)"
      proof
        fix tn' assume "tn' \<in> set ?tsn'"
        then obtain tn where tn: "tn \<in> set tsn" and
          eq: "tn' = (if fst tn = fst tp then (fst tn, add_need j ?a (?a / (1/4)) (snd tn)) else tn)"
          unfolding record_need_set by blast
        from Cons.prems(2) tn have p: "distinct (slot_vehicles tn)" "set (slot_vehicles tn) \<subseteq> insert j J"
          "j \<in> set (slot_vehicles tn) \<longrightarrow> fst tn \<notin> fst ` set (tp # tps)" by auto
        show "distinct (slot_vehicles tn') \<and> set (slot_vehicles tn') \<subseteq> insert j J
           \<and> (j \<in> set (slot_vehicles tn') \<longrightarrow> fst tn' \<notin> fst ` set tps)"
        proof (cases "fst tn = fst tp")
          case True
          with p(3) have "j \<notin> set (slot_vehicles tn)" by auto
          with True p eq nt show ?thesis by (auto simp: slot_vehicles_add)
        next
          case False
          with p eq show ?thesis by auto
        qed
      qed
      from pos rp have "distribute_energy j mx rem (tp # tps) tsn = distribute_energy j mx (rem - ?a) tps ?tsn'"
        unfolding distribute_energy_Cons by simp
      with Cons.IH[OF d inv'] show ?thesis by simp
    qed
  qed
qed

lemma time_prices_distinct:
  assumes "distinct (map Time optimized)"
  shows "distinct (map fst (sort_key snd (time_prices_of optimized v)))"
proof -
  have "distinct (map Time [r \<leftarrow> optimized. Time r \<ge> arrival_time v \<and> Time r < departure_time v])"
    using assms by (rule distinct_map_filter)
  then have "distinct (map fst (time_prices_of optimized v))"
    by (simp add: time_prices_of_def comp_def)
  then show ?thesis by (simp add: distinct_map)
qed

lemma vehicle_needs_vehicles:
  assumes dt: "distinct (map Time optimized)" and jJ: "j \<notin> J"
    and inv: "\<forall>tn \<in> set tsn. distinct (slot_vehicles tn) \<and> set (slot_vehicles tn) \<subseteq> J"
  shows "\<forall>tn \<in> set (vehicle_needs optimized j v tsn).
       distinct (slot_vehicles tn) \<and> set (slot_vehicles tn) \<subseteq> insert j J"
proof -
  have pre: "\<forall>tn \<in> set tsn. distinct (slot_vehicles tn) \<and> set (slot_vehicles tn) \<subseteq> insert j J
       \<and> (j \<in> set (slot_vehicles tn) \<longrightarrow> fst tn \<notin> fst ` set tps)" for tps :: "(int \<times> rat) list"
    using inv jJ by auto
  have keep: "\<forall>tn \<in> set tsn. distinct (slot_vehicles tn) \<and> set (slot_vehicles tn) \<subseteq> insert j J"
    using inv by auto
  show ?thesis
    using keep distribute_energy_vehicles[OF time_prices_distinct[OF dt] pre]
    by (simp add: vehicle_needs_def Let_def)
qed

lemma phase1_vehicles:
  "distinct (map Time optimized) \<Longrightarrow> distinct js \<Longrightarrow> set js \<inter> J = {} \<Longrightarrow>
   \<forall>tn \<in> set tsn. distinct (slot_vehicles tn) \<and> set (slot_vehicles tn) \<subseteq> J \<Longrightarrow>
   \<forall>tn \<in> set (phase1 optimized vs js tsn). distinct (slot_vehicles tn) \<and> set (slot_vehicles tn) \<subseteq> J \<union> set js"
proof (induction js arbitrary: tsn J)
  case Nil
  then show ?case by simp
next
  case (Cons j js)
  from Cons.prems(2,3) have jJ: "j \<notin> J" and d: "distinct js" and dj: "set js \<inter> insert j J = {}" by auto
  note step = vehicle_needs_vehicles[OF Cons.prems(1) jJ Cons.prems(4), of "vs ! j"]
  from Cons.IH[OF Cons.prems(1) d dj step] show ?case by auto
qed


lemma phase1_state_load:
  assumes "phase1_state dam i15 i60 vs s e = Inr (optimized, tsn, vs1)"
  shows "\<exists>ts msgs. opt_schedule_times s (resolve_end s e) = Inr ts
           \<and> load_price_data dam i15 i60 (map opt_empty_row ts) = Inr (optimized, msgs)"
  using assms by (auto simp: phase1_state_def Let_def split: sum.splits prod.splits)

lemma phase1_state_wellformed:
  assumes st: "phase1_state dam i15 i60 vs s e = Inr (optimized, tsn, vs1)"
    and tn: "tn \<in> set tsn" and en: "en \<in> set (vehicles (snd tn))"
  shows "sn_ok (snd tn)" and "0 < power_kw en" and "0 < total_power_kw (snd tn)"
    and "vehicle en < length vs" and "distinct (map vehicle (vehicles (snd tn)))"
proof -
  let ?js = "get_eligible_vehicles vs s (resolve_end s e)"
  from phase1_state_cases[OF st] obtain ts where
    ts: "opt_schedule_times s (resolve_end s e) = Inr ts" and
    tsn: "tsn = phase1 optimized vs1 ?js (init_time_slot_needs ts)"
    by blast
  from phase1_state_load[OF st] ts obtain msgs where
    ld: "load_price_data dam i15 i60 (map opt_empty_row ts) = Inr (optimized, msgs)" by auto
  have "list_all (\<lambda>tn. sn_ok (snd tn)) tsn"
    unfolding tsn by (rule phase1_ok) (rule init_needs_ok)
  with tn show ok: "sn_ok (snd tn)" by (simp add: list_all_iff)
  with en show "0 < power_kw en" by (simp add: sn_ok_def list_all_iff)
  from en have "vehicles (snd tn) \<noteq> []" by auto
  with ok show "0 < total_power_kw (snd tn)" by (rule sn_ok_pos)
  have "list_all blank (map opt_empty_row ts)" by (simp add: list_all_iff blank_empty_row)
  with load_price_data_blank[OF ld] have "map Time optimized = map Time (map opt_empty_row ts)" by simp
  then have "map Time optimized = ts" by (simp add: comp_def opt_empty_row_def)
  with opt_schedule_times_distinct[OF ts] have dt: "distinct (map Time optimized)" by simp
  have init: "\<forall>tn \<in> set (init_time_slot_needs ts). distinct (slot_vehicles tn) \<and> set (slot_vehicles tn) \<subseteq> {}"
    by (simp add: init_time_slot_needs_def slot_vehicles_def)
  from phase1_vehicles[OF dt get_eligible_vehicles_distinct _ init, of vs s "resolve_end s e" vs1] tn
  have wf: "distinct (slot_vehicles tn)" "set (slot_vehicles tn) \<subseteq> set ?js"
    by (auto simp: tsn)
  from wf(1) show "distinct (map vehicle (vehicles (snd tn)))" by (simp add: slot_vehicles_def)
  from en have "vehicle en \<in> set (slot_vehicles tn)" by (simp add: slot_vehicles_def)
  with wf(2) have "vehicle en \<in> set ?js" by blast
  then show "vehicle en < length vs" by (rule get_eligible_vehicles_bound)
qed

text \<open>An entry of a slot belongs to a vehicle with a positive energy need, so the division
  by its capacity in phase 3 is a division by a nonzero number.\<close>

lemma distribute_energy_pred:
  "\<forall>tn \<in> set tsn. \<forall>k \<in> set (slot_vehicles tn). Q k \<Longrightarrow> Q j \<Longrightarrow>
   \<forall>tn \<in> set (distribute_energy j mx rem tps tsn). \<forall>k \<in> set (slot_vehicles tn). Q k"
proof (induction tps arbitrary: rem tsn)
  case Nil
  then show ?case by simp
next
  case (Cons tp tps)
  let ?a = "min (mx * (1/4)) rem"
  let ?tsn' = "record_need tsn (fst tp) j ?a (?a / (1/4))"
  have inv': "\<forall>tn \<in> set ?tsn'. \<forall>k \<in> set (slot_vehicles tn). Q k"
  proof (intro ballI)
    fix tn' k assume "tn' \<in> set ?tsn'" and k: "k \<in> set (slot_vehicles tn')"
    then obtain tn where tn: "tn \<in> set tsn" and
      eq: "tn' = (if fst tn = fst tp then (fst tn, add_need j ?a (?a / (1/4)) (snd tn)) else tn)"
      unfolding record_need_set by blast
    from k eq have "k \<in> set (slot_vehicles tn) \<or> k = j"
      by (auto simp: slot_vehicles_add split: if_splits)
    with Cons.prems tn show "Q k" by auto
  qed
  show ?case
    unfolding distribute_energy_Cons
    using Cons.prems Cons.IH[OF inv' Cons.prems(2)] Cons.IH[OF Cons.prems]
    by simp
qed

lemma vehicle_needs_pred:
  assumes "\<forall>tn \<in> set tsn. \<forall>k \<in> set (slot_vehicles tn). Q k"
    and "0 < (target_soc v - return_soc v) * capacity_kwh v \<Longrightarrow> Q j"
  shows "\<forall>tn \<in> set (vehicle_needs optimized j v tsn). \<forall>k \<in> set (slot_vehicles tn). Q k"
proof (cases "(target_soc v - return_soc v) * capacity_kwh v \<le> 0")
  case True
  with assms(1) show ?thesis by (simp add: vehicle_needs_def Let_def)
next
  case False
  then have "Q j" using assms(2) by simp
  from distribute_energy_pred[of tsn Q, OF assms(1) this] assms(1) show ?thesis
    by (simp add: vehicle_needs_def Let_def)
qed

lemma phase1_pred:
  "\<forall>tn \<in> set tsn. \<forall>k \<in> set (slot_vehicles tn). 0 < (target_soc (vs ! k) - return_soc (vs ! k)) * capacity_kwh (vs ! k) \<Longrightarrow>
   \<forall>tn \<in> set (phase1 optimized vs js tsn). \<forall>k \<in> set (slot_vehicles tn).
      0 < (target_soc (vs ! k) - return_soc (vs ! k)) * capacity_kwh (vs ! k)"
proof (induction js arbitrary: tsn)
  case Nil
  then show ?case by simp
next
  case (Cons j js)
  have "\<forall>tn \<in> set (vehicle_needs optimized j (vs ! j) tsn). \<forall>k \<in> set (slot_vehicles tn).
      0 < (target_soc (vs ! k) - return_soc (vs ! k)) * capacity_kwh (vs ! k)"
    using Cons.prems by (rule vehicle_needs_pred) simp
  from Cons.IH[OF this] show ?case by simp
qed

lemma needs_capacity_nonzero:
  assumes st: "phase1_state dam i15 i60 vs s e = Inr (optimized, tsn, vs1)"
    and tn: "tn \<in> set tsn" and en: "en \<in> set (vehicles (snd tn))"
  shows "capacity_kwh (vs1 ! vehicle en) \<noteq> 0"
proof -
  from phase1_state_cases[OF st] obtain ts where
    tsn: "tsn = phase1 optimized vs1 (get_eligible_vehicles vs s (resolve_end s e)) (init_time_slot_needs ts)"
    by blast
  have init: "\<forall>tn \<in> set (init_time_slot_needs ts). \<forall>k \<in> set (slot_vehicles tn).
      0 < (target_soc (vs1 ! k) - return_soc (vs1 ! k)) * capacity_kwh (vs1 ! k)"
    by (simp add: init_time_slot_needs_def slot_vehicles_def)
  from en have "vehicle en \<in> set (slot_vehicles tn)" by (simp add: slot_vehicles_def)
  with phase1_pred[OF init] tn
  have "0 < (target_soc (vs1 ! vehicle en) - return_soc (vs1 ! vehicle en)) * capacity_kwh (vs1 ! vehicle en)"
    unfolding tsn by blast
  then show ?thesis by auto
qed

text \<open>
  Claim C2. In a run with the allocation fraction in \<open>[0, 1]\<close>, every slot that has an
  entry has a positive total demand \<open>d\<close>, and the loop body charges the vehicle of an
  entry with demand \<open>p\<close> by \<open>p * (dam_actual / d)\<close> from DAM and \<open>p * (idm_actual / d)\<close> from
  IDM, where \<open>idm_actual = floor((d - d * DAM_ALLOCATION) / 100) * 100\<close> and \<open>dam_actual =
  d - idm_actual\<close>; a slot whose total demand is zero changes neither its row nor any
  vehicle. Here \<open>tsn\<close> are the needs phase 1 computed for the fleet and \<open>vs\<close> is any state of
  that fleet's vehicles, in particular the one the loop has reached.
\<close>

theorem proportional_distribution:
  assumes frac: "0 \<le> DAM_ALLOCATION" "DAM_ALLOCATION \<le> 1"
    and st: "phase1_state dam_prices idm_15_prices idm_60_prices fleet s e = Inr (optimized, tsn, vs1)"
    and tn: "tn \<in> set tsn"
    and en: "en \<in> set (vehicles (snd tn))"
    and len: "length vs = length fleet"
  shows "0 < total_power_kw (snd tn) \<and> 0 < power_kw en
       \<and> entry_dam_kw (charging_schedule (snd (allocate_slot DAM_ALLOCATION row tn vs) ! vehicle en) (fst tn))
           = power_kw en * (dam_actual_kw DAM_ALLOCATION (total_power_kw (snd tn)) / total_power_kw (snd tn))
       \<and> entry_idm_kw (charging_schedule (snd (allocate_slot DAM_ALLOCATION row tn vs) ! vehicle en) (fst tn))
           = power_kw en * (of_int (idm_actual_kw DAM_ALLOCATION (total_power_kw (snd tn))) / total_power_kw (snd tn))
       \<and> idm_actual_kw DAM_ALLOCATION (total_power_kw (snd tn))
           = \<lfloor>(total_power_kw (snd tn) - total_power_kw (snd tn) * DAM_ALLOCATION) / 100\<rfloor> * 100
       \<and> dam_actual_kw DAM_ALLOCATION (total_power_kw (snd tn))
           = total_power_kw (snd tn) - of_int (idm_actual_kw DAM_ALLOCATION (total_power_kw (snd tn)))
       \<and> (if tn0 \<in> set tsn \<and> total_power_kw (snd tn0) = 0
          then allocate_slot DAM_ALLOCATION row tn0 vs = (row, vs) else True)"
proof -
  note wf = phase1_state_wellformed[OF st tn en]
  from wf(4) len have j: "vehicle en < length vs" by simp
  from slot_proportional[OF frac wf(3) en wf(2) j wf(5), of row "fst tn" "snd tn0"]
  have main: "entry_dam_kw (charging_schedule (snd (allocate_slot DAM_ALLOCATION row tn vs) ! vehicle en) (fst tn))
           = power_kw en * (dam_actual_kw DAM_ALLOCATION (total_power_kw (snd tn)) / total_power_kw (snd tn))
       \<and> entry_idm_kw (charging_schedule (snd (allocate_slot DAM_ALLOCATION row tn vs) ! vehicle en) (fst tn))
           = power_kw en * (of_int (idm_actual_kw DAM_ALLOCATION (total_power_kw (snd tn))) / total_power_kw (snd tn))
       \<and> idm_actual_kw DAM_ALLOCATION (total_power_kw (snd tn))
           = \<lfloor>(total_power_kw (snd tn) - total_power_kw (snd tn) * DAM_ALLOCATION) / 100\<rfloor> * 100
       \<and> dam_actual_kw DAM_ALLOCATION (total_power_kw (snd tn))
           = total_power_kw (snd tn) - of_int (idm_actual_kw DAM_ALLOCATION (total_power_kw (snd tn)))"
    by simp
  have skip: "if tn0 \<in> set tsn \<and> total_power_kw (snd tn0) = 0
          then allocate_slot DAM_ALLOCATION row tn0 vs = (row, vs) else True"
  proof (cases "tn0 \<in> set tsn \<and> total_power_kw (snd tn0) = 0")
    case True
    have "vehicles (snd tn0) = []"
    proof (rule ccontr)
      assume "vehicles (snd tn0) \<noteq> []"
      then obtain x where "x \<in> set (vehicles (snd tn0))" by (cases "vehicles (snd tn0)") auto
      with phase1_state_wellformed(3)[OF st _ this] True show False by simp
    qed
    with True show ?thesis by (simp add: allocate_slot_def)
  next
    case False
    then show ?thesis by auto
  qed
  from wf(3) wf(2) main skip show ?thesis by blast
qed

text \<open>The scenario of the specification: 250 kW in the slot, a vehicle asking for 50 kW.\<close>

lemma ex_state_needs:
  "state_needs (phase1_state [(0, 80)] [(0, 60)] [(0, 70)] ex_fleet 0 (Some 900)) = Inr [(0, ex_slot)]"
  by code_simp


lemma state_needs_Inr:
  "state_needs res = Inr tsn \<Longrightarrow> \<exists>optimized vs1. res = Inr (optimized, tsn, vs1)"
  by (auto simp: state_needs_def split: sum.splits prod.splits)

theorem proportional_distribution_witness:
  "(0::rat) \<le> 1/2 \<and> (1/2::rat) \<le> 1
   \<and> state_needs (phase1_state [(0, 80)] [(0, 60)] [(0, 70)] ex_fleet 0 (Some 900)) = Inr [(0, ex_slot)]
   \<and> (0, ex_slot) \<in> set [(0, ex_slot)]
   \<and> \<lparr>vehicle = 0, energy_kwh = 25/2, power_kw = 50\<rparr> \<in> set (vehicles (snd (0::int, ex_slot)))
   \<and> length ex_fleet = length ex_fleet
   \<and> total_power_kw ex_slot = 250
   \<and> idm_actual_kw (1/2) 250 = 100 \<and> dam_actual_kw (1/2) 250 = 150
   \<and> entry_dam_kw (charging_schedule (snd (allocate_slot (1/2) ex_row (0, ex_slot) ex_fleet) ! 0) 0) = 30
   \<and> entry_idm_kw (charging_schedule (snd (allocate_slot (1/2) ex_row (0, ex_slot) ex_fleet) ! 0) 0) = 20
   \<and> result_schedule (optimized_strategy [(0, 80)] [(0, 60)] [(0, 70)] ex_fleet 0 (Some 900) (1/2)) 0 0
        = Some (MIXED 30 20 Min15)"
proof -
  let ?e = "\<lparr>vehicle = 0, energy_kwh = 25/2, power_kw = 50\<rparr> :: need"
  from state_needs_Inr[OF ex_state_needs] obtain optimized vs1 where
    st: "phase1_state [(0, 80)] [(0, 60)] [(0, 70)] ex_fleet 0 (Some 900) = Inr (optimized, [(0, ex_slot)], vs1)"
    by blast
  have f: "(0::rat) \<le> 1/2" "(1/2::rat) \<le> 1" by simp_all
  have tn: "(0, ex_slot) \<in> set [(0::int, ex_slot)]" by simp
  have en: "?e \<in> set (vehicles (snd (0::int, ex_slot)))" by (simp add: ex_slot_def)
  have v: "total_power_kw ex_slot = 250" "power_kw ?e = 50" "vehicle ?e = 0" by (simp_all add: ex_slot_def)
  have a: "idm_actual_kw (1/2) 250 = 100 \<and> dam_actual_kw (1/2) 250 = 150"
    by code_simp
  from proportional_distribution[OF f st tn en refl, of ex_row] v a
  have "entry_dam_kw (charging_schedule (snd (allocate_slot (1/2) ex_row (0, ex_slot) ex_fleet) ! 0) 0) = 30"
    and "entry_idm_kw (charging_schedule (snd (allocate_slot (1/2) ex_row (0, ex_slot) ex_fleet) ! 0) 0) = 20"
    by simp_all
  with f ex_state_needs tn en v a ex_run_schedule show ?thesis by simp
qed


section \<open>The total of a row is the demand of its slot\<close>

lemma allocate_slot_total:
  assumes "blank row" "sn_ok (snd tn)"
  shows "Time (fst (allocate_slot A row tn vs)) = Time row"
    and "total_charge_kw (fst (allocate_slot A row tn vs)) = sum_list (map power_kw (vehicles (snd tn)))"
  using assms by (simp_all add: allocate_slot_def blank_def sn_ok_def)

lemma phase2_rows_aligned:
  "length rows = length tsn \<Longrightarrow> list_all blank rows \<Longrightarrow> list_all (\<lambda>tn. sn_ok (snd tn)) tsn \<Longrightarrow>
     map Time (fst (phase2 A rows tsn vs)) = map Time rows \<and>
     map total_charge_kw (fst (phase2 A rows tsn vs))
       = map (\<lambda>tn. sum_list (map power_kw (vehicles (snd tn)))) tsn"
proof (induction A rows tsn vs rule: phase2.induct)
  case (1 A row rows tn tsn vs)
  from "1.prems" have l: "length rows = length tsn" and b: "blank row" "list_all blank rows"
    and o: "sn_ok (snd tn)" "list_all (\<lambda>tn. sn_ok (snd tn)) tsn" by simp_all
  from "1.IH"[OF refl prod.collapse l b(2) o(2)] allocate_slot_total[OF b(1) o(1), of A vs]
  show ?case by (simp add: Let_def split_beta)
qed simp_all

text \<open>
  The column \<open>total_charge_kw\<close> of the optimized schedule is, slot by slot, the aggregate
  demand of the fleet: the sum of the powers that phase 1 recorded for the slot.
\<close>

theorem total_charge_is_slot_demand:
  assumes run: "optimized_strategy dam_prices idm_15_prices idm_60_prices vs s e DAM_ALLOCATION = Inr (rows, vs')"
  shows "\<exists>optimized tsn vs1.
           phase1_state dam_prices idm_15_prices idm_60_prices vs s e = Inr (optimized, tsn, vs1)
         \<and> map Time rows = map fst tsn
         \<and> map total_charge_kw rows = map (\<lambda>tn. sum_list (map power_kw (vehicles (snd tn)))) tsn"
proof -
  from run obtain optimized tsn vs1 where
    st: "phase1_state dam_prices idm_15_prices idm_60_prices vs s e = Inr (optimized, tsn, vs1)" and
    rows: "rows = map calc_costs (fst (phase2 DAM_ALLOCATION optimized tsn vs1))"
    by (auto simp: optimized_strategy_phase2 split: sum.splits prod.splits)
  from phase1_state_cases[OF st] obtain ts where
    ts: "opt_schedule_times s (resolve_end s e) = Inr ts" and
    tsn: "tsn = phase1 optimized vs1 (get_eligible_vehicles vs s (resolve_end s e)) (init_time_slot_needs ts)"
    by blast
  from phase1_state_load[OF st] ts obtain msgs where
    ld: "load_price_data dam_prices idm_15_prices idm_60_prices (map opt_empty_row ts) = Inr (optimized, msgs)"
    by auto
  have bl0: "list_all blank (map opt_empty_row ts)" by (simp add: list_all_iff blank_empty_row)
  from load_price_data_blank[OF ld bl0] have bl: "list_all blank optimized"
    and tm: "map Time optimized = ts" by (simp_all add: comp_def opt_empty_row_def)
  have keys: "map fst tsn = ts" by (simp add: tsn phase1_times init_needs_times)
  have ok: "list_all (\<lambda>tn. sn_ok (snd tn)) tsn"
    unfolding tsn by (rule phase1_ok) (rule init_needs_ok)
  have len: "length optimized = length tsn"
    using tm keys by (metis length_map)
  from phase2_rows_aligned[OF len bl ok, of DAM_ALLOCATION vs1] tm keys
  have "map Time rows = map fst tsn
      \<and> map total_charge_kw rows = map (\<lambda>tn. sum_list (map power_kw (vehicles (snd tn)))) tsn"
    by (simp add: rows comp_def)
  with st show ?thesis by blast
qed

theorem total_charge_is_slot_demand_witness:
  "\<exists>vs' optimized tsn vs1.
      optimized_strategy [(0, 80)] [(0, 60)] [(0, 70)] ex_fleet 0 (Some 900) (1/2) = Inr ([ex_row], vs')
    \<and> phase1_state [(0, 80)] [(0, 60)] [(0, 70)] ex_fleet 0 (Some 900) = Inr (optimized, tsn, vs1)
    \<and> map total_charge_kw [ex_row] = map (\<lambda>tn. sum_list (map power_kw (vehicles (snd tn)))) tsn
    \<and> tsn = [(0, ex_slot)] \<and> sum_list (map power_kw (vehicles ex_slot)) = 250"
proof -
  obtain vs' where run:
    "optimized_strategy [(0, 80)] [(0, 60)] [(0, 70)] ex_fleet 0 (Some 900) (1/2) = Inr ([ex_row], vs')"
    using result_rows_Inr[OF ex_run_rows] by blast
  from total_charge_is_slot_demand[OF run] obtain optimized tsn vs1 where
    st: "phase1_state [(0, 80)] [(0, 60)] [(0, 70)] ex_fleet 0 (Some 900) = Inr (optimized, tsn, vs1)" and
    eq: "map total_charge_kw [ex_row] = map (\<lambda>tn. sum_list (map power_kw (vehicles (snd tn)))) tsn"
    by blast
  from st ex_state_needs have t: "tsn = [(0, ex_slot)]" by (simp add: state_needs_def)
  have "sum_list (map power_kw (vehicles ex_slot)) = 250" by (simp add: ex_slot_def)
  with run st eq t show ?thesis by blast
qed


section \<open>C3: the demand projection\<close>

lemma distribute_energy_greedy:
  assumes mx: "0 < mx"
  shows "distribute_energy j mx deficit tps tsn =
           foldl (record_demand j) tsn (greedy_demand mx deficit (map fst tps))"
proof (induction tps arbitrary: deficit tsn)
  case Nil
  then show ?case by simp
next
  case (Cons tp tps)
  show ?case
  proof (cases "deficit \<le> 0")
    case True
    then show ?thesis by (simp add: distribute_energy_Cons)
  next
    case False
    then have pos: "0 < min (mx * (1/4)) deficit" using mx by simp
    have pw: "min (mx / 4) deficit * 4 = min mx (deficit * 4)"
      by (simp add: min_def)
    have en: "min mx (deficit * 4) / 4 = min (mx / 4) deficit"
      by (simp add: min_def)
    show ?thesis
      using False pos
      by (simp add: distribute_energy_Cons Cons.IH pw en record_demand_def del: distribute_energy.simps)
  qed
qed

lemma phase1_foldl:
  "phase1 optimized vs js tsn = foldl (\<lambda>tsn j. vehicle_needs optimized j (vs ! j) tsn) tsn js"
  by (induction js arbitrary: tsn) simp_all

lemma greedy_demand_pos: "0 < mx \<Longrightarrow> tp \<in> set (greedy_demand mx deficit ts) \<Longrightarrow> 0 < snd tp"
  by (induction ts arbitrary: deficit) (auto split: if_splits)

lemma greedy_demand_le: "tp \<in> set (greedy_demand mx deficit ts) \<Longrightarrow> snd tp \<le> mx"
  by (induction ts arbitrary: deficit) (auto split: if_splits)

lemma distribute_energy_no_power:
  "mx \<le> 0 \<Longrightarrow> distribute_energy j mx deficit tps tsn = tsn"
proof (induction tps arbitrary: deficit tsn)
  case Nil
  then show ?case by simp
next
  case (Cons tp tps)
  then have "\<not> 0 < min (mx * (1/4)) deficit" by (simp add: min_def)
  with Cons show ?case unfolding distribute_energy_Cons by simp
qed

lemma distribute_energy_demand:
  "distribute_energy j mx deficit tps tsn =
     foldl (record_demand j) tsn [tp \<leftarrow> greedy_demand mx deficit (map fst tps). 0 < snd tp]"
proof (cases "0 < mx")
  case True
  then have "[tp \<leftarrow> greedy_demand mx deficit (map fst tps). 0 < snd tp] = greedy_demand mx deficit (map fst tps)"
    by (simp add: greedy_demand_pos)
  with distribute_energy_greedy[OF True] show ?thesis by simp
next
  case False
  then have mx: "mx \<le> 0" by simp
  have "[tp \<leftarrow> greedy_demand mx deficit (map fst tps). 0 < snd tp] = []"
  proof -
    have "\<not> 0 < snd tp" if "tp \<in> set (greedy_demand mx deficit (map fst tps))" for tp
      using greedy_demand_le[OF that] mx by simp
    then show ?thesis by (simp add: filter_empty_conv)
  qed
  with distribute_energy_no_power[OF mx] show ?thesis by simp
qed

lemma insort_key_map:
  "insort_key f (g x) (map g ys) = map g (insort_key (\<lambda>x. f (g x)) x ys)"
  by (induction ys) simp_all

lemma sort_key_map: "sort_key f (map g xs) = map g (sort_key (\<lambda>x. f (g x)) xs)"
  by (induction xs) (simp_all add: insort_key_map)

lemma ranked_slots_time_prices:
  "map fst (sort_key snd (time_prices_of optimized v)) = ranked_slots optimized v"
  by (simp add: time_prices_of_def ranked_slots_def stay_slots_def sort_key_map comp_def conj_commute)

lemma vehicle_needs_demand:
  "vehicle_needs optimized j v tsn = foldl (record_demand j) tsn (vehicle_demand optimized v)"
proof (cases "(target_soc v - return_soc v) * capacity_kwh v \<le> 0")
  case True
  then have "greedy_demand (max_charge_kw v) ((target_soc v - return_soc v) * capacity_kwh v) ts = []" for ts
    by (cases ts) simp_all
  with True show ?thesis by (simp add: vehicle_needs_def vehicle_demand_def Let_def)
next
  case False
  show ?thesis
  proof (cases "time_prices_of optimized v = []")
    case True
    then have "ranked_slots optimized v = []"
      using ranked_slots_time_prices[of optimized v] by simp
    with True False show ?thesis by (simp add: vehicle_needs_def vehicle_demand_def Let_def)
  next
    case ne: False
    with False show ?thesis
      by (simp add: vehicle_needs_def vehicle_demand_def Let_def distribute_energy_demand
          ranked_slots_time_prices)
  qed
qed

lemma vehicle_demand_reset: "vehicle_demand optimized (reset_vehicle v) = vehicle_demand optimized v"
  by (simp add: vehicle_demand_def ranked_slots_def stay_slots_def reset_vehicle_def)

lemma opt_schedule_times_bounds:
  assumes "opt_schedule_times s e = Inr ts" and "t \<in> set ts"
  shows "s \<le> t \<and> t < e"
proof -
  let ?p = "py_int (of_int (e - s) / 900)"
  from assms(1) have p: "0 \<le> ?p" and ts: "ts = map (\<lambda>k. s + 900 * int k) [0 ..< nat ?p]"
    by (auto simp: opt_schedule_times_def date_range_def split: if_splits)
  from assms(2) ts obtain k where k: "k < nat ?p" and t: "t = s + 900 * int k" by auto
  from k have pos: "0 < ?p" by simp
  have "?p \<le> \<lfloor>(of_int (e - s) :: rat) / 900\<rfloor>"
  proof (cases "0 \<le> (of_int (e - s) :: rat) / 900")
    case True
    then show ?thesis by (simp add: py_int_def)
  next
    case False
    then have "\<lceil>(of_int (e - s) :: rat) / 900\<rceil> \<le> 0" by (simp add: ceiling_le_iff)
    with False pos show ?thesis by (simp add: py_int_def)
  qed
  with k have "int k + 1 \<le> \<lfloor>(of_int (e - s) :: rat) / 900\<rfloor>" by linarith
  then have "of_int (int k + 1) \<le> (of_int (e - s) :: rat) / 900" by (simp only: le_floor_iff)
  then have "(of_int (900 * (int k + 1)) :: rat) \<le> of_int (e - s)" by simp
  then have "900 * (int k + 1) \<le> e - s" by (simp only: of_int_le_iff)
  with t show ?thesis by simp
qed

lemma sorted_grid: "sorted (map (\<lambda>k. s + 900 * int k) [0 ..< n])"
  by (induction n) (auto simp: sorted_append)

lemma vehicle_demand_not_eligible:
  assumes "\<forall>r \<in> set optimized. s \<le> Time r \<and> Time r < e"
    and "\<not> get_eligible_vehicles_pred s e v"
  shows "vehicle_demand optimized v = []"
proof -
  have "stay_slots optimized v = []"
    using assms by (auto simp: stay_slots_def filter_empty_conv get_eligible_vehicles_pred_def)
  then show ?thesis by (simp add: vehicle_demand_def ranked_slots_def)
qed

lemma foldl_filter_skip:
  "(\<And>x a. x \<in> set xs \<Longrightarrow> \<not> P x \<Longrightarrow> f a x = a) \<Longrightarrow> foldl f a (filter P xs) = foldl f a xs"
  by (induction xs arbitrary: a) simp_all

lemma foldl_cong_set:
  "(\<And>x a. x \<in> set xs \<Longrightarrow> f a x = g a x) \<Longrightarrow> foldl f a xs = foldl g a xs"
  by (induction xs arbitrary: a) simp_all

lemma phase1_state_demand:
  assumes st: "phase1_state dam i15 i60 vs s e = Inr (optimized, tsn, vs1)"
  shows "tsn = projected_demand optimized vs"
    and "\<forall>r \<in> set optimized. s \<le> Time r \<and> Time r < resolve_end s e"
    and "sorted (map Time optimized)"
proof -
  let ?e = "resolve_end s e"
  let ?js = "get_eligible_vehicles vs s ?e"
  from phase1_state_cases[OF st] obtain ts where
    ts: "opt_schedule_times s ?e = Inr ts" and
    vs1: "vs1 = reset_eligible ?js vs" and
    tsn: "tsn = phase1 optimized vs1 ?js (init_time_slot_needs ts)"
    by blast
  from phase1_state_load[OF st] ts obtain msgs where
    ld: "load_price_data dam i15 i60 (map opt_empty_row ts) = Inr (optimized, msgs)" by auto
  have bl0: "list_all blank (map opt_empty_row ts)" by (simp add: list_all_iff blank_empty_row)
  from load_price_data_blank[OF ld bl0] have tm: "map Time optimized = ts"
    by (simp_all add: comp_def opt_empty_row_def)
  show bounds: "\<forall>r \<in> set optimized. s \<le> Time r \<and> Time r < ?e"
  proof
    fix r assume "r \<in> set optimized"
    then have "Time r \<in> set (map Time optimized)" by simp
    with tm have "Time r \<in> set ts" by simp
    with opt_schedule_times_bounds[OF ts] show "s \<le> Time r \<and> Time r < ?e" by blast
  qed
  from ts have "sorted ts"
    by (auto simp: opt_schedule_times_def date_range_def sorted_grid split: if_splits)
  with tm show "sorted (map Time optimized)" by simp
  have step: "vehicle_needs optimized j (vs1 ! j) a = foldl (record_demand j) a (vehicle_demand optimized (vs ! j))"
    if "j \<in> set ?js" for j a
  proof -
    from that have "j < length vs" by (rule get_eligible_vehicles_bound)
    then have "vs1 ! j = reset_vehicle (vs ! j)" using that by (simp add: vs1 reset_eligible_nth)
    then show ?thesis by (simp add: vehicle_needs_demand vehicle_demand_reset)
  qed
  have skip: "foldl (record_demand j) a (vehicle_demand optimized (vs ! j)) = a"
    if "j \<in> set [0 ..< length vs]" "\<not> get_eligible_vehicles_pred s ?e (vs ! j)" for j a
    using vehicle_demand_not_eligible[OF bounds that(2)] by simp
  have "tsn = foldl (\<lambda>tsn j. vehicle_needs optimized j (vs1 ! j) tsn) (init_time_slot_needs ts) ?js"
    by (simp add: tsn phase1_foldl)
  also have "\<dots> = foldl (\<lambda>tsn j. foldl (record_demand j) tsn (vehicle_demand optimized (vs ! j)))
       (init_time_slot_needs ts) ?js"
    by (rule foldl_cong_set) (rule step)
  also have "\<dots> = foldl (\<lambda>tsn j. foldl (record_demand j) tsn (vehicle_demand optimized (vs ! j)))
       (init_time_slot_needs ts) [0 ..< length vs]"
    unfolding get_eligible_vehicles_def by (rule foldl_filter_skip) (rule skip)
  finally show "tsn = projected_demand optimized vs" by (simp add: projected_demand_def tm)
qed


text \<open>
  Claim C3. In a run of \<open>optimized_strategy\<close> the needs that phase 1 leaves for the loop
  over the slots are the projected demand of the fleet: for every vehicle, the greedy
  rule of the specification applied to the slots of its stay that lie on the grid of the
  horizon, ranked by ascending DAM price, a vehicle being listed in a slot when its
  demand there is positive; and the column \<open>total_charge_kw\<close> of the returned schedule
  is, slot by slot, the sum of these demands. The ranking is sorted by price and stable,
  so slots of equal price keep their chronological order. For a vehicle with a positive
  \<open>max_charge_kw\<close> every slot the greedy rule consumes is listed, with the demand
  \<open>min(max_charge_kw, remaining_deficit / 0.25 h)\<close>; a vehicle whose energy need is zero or
  negative is listed nowhere.
\<close>

theorem demand_projection:
  assumes run: "optimized_strategy dam_prices idm_15_prices idm_60_prices vs s e DAM_ALLOCATION = Inr (rows, vs')"
  shows "\<exists>optimized tsn vs1.
           phase1_state dam_prices idm_15_prices idm_60_prices vs s e = Inr (optimized, tsn, vs1)
         \<and> rows = map calc_costs (fst (phase2 DAM_ALLOCATION optimized tsn vs1))
         \<and> vs' = snd (phase2 DAM_ALLOCATION optimized tsn vs1)
         \<and> tsn = projected_demand optimized vs
         \<and> map total_charge_kw rows
             = map (\<lambda>tn. sum_list (map power_kw (vehicles (snd tn)))) (projected_demand optimized vs)
         \<and> (\<forall>r \<in> set optimized. s \<le> Time r \<and> Time r < resolve_end s e)
         \<and> (\<forall>v p. sorted (map dam_price (sort_key dam_price (stay_slots optimized v)))
                \<and> [r \<leftarrow> sort_key dam_price (stay_slots optimized v). dam_price r = p]
                     = [r \<leftarrow> stay_slots optimized v. dam_price r = p]
                \<and> sorted (map Time [r \<leftarrow> sort_key dam_price (stay_slots optimized v). dam_price r = p]))
         \<and> (\<forall>v. 0 < max_charge_kw v \<longrightarrow>
                vehicle_demand optimized v =
                  greedy_demand (max_charge_kw v) ((target_soc v - return_soc v) * capacity_kwh v)
                    (ranked_slots optimized v))
         \<and> (\<forall>v. (target_soc v - return_soc v) * capacity_kwh v \<le> 0 \<longrightarrow> vehicle_demand optimized v = [])"
proof -
  from run obtain optimized tsn vs1 where
    st: "phase1_state dam_prices idm_15_prices idm_60_prices vs s e = Inr (optimized, tsn, vs1)" and
    rows: "rows = map calc_costs (fst (phase2 DAM_ALLOCATION optimized tsn vs1))" and
    vs': "vs' = snd (phase2 DAM_ALLOCATION optimized tsn vs1)"
    by (auto simp: optimized_strategy_phase2 split: sum.splits prod.splits)
  note pd = phase1_state_demand[OF st]
  from phase1_state_cases[OF st] obtain ts where
    ts: "opt_schedule_times s (resolve_end s e) = Inr ts" and
    tsn: "tsn = phase1 optimized vs1 (get_eligible_vehicles vs s (resolve_end s e)) (init_time_slot_needs ts)"
    by blast
  from phase1_state_load[OF st] ts obtain msgs where
    ld: "load_price_data dam_prices idm_15_prices idm_60_prices (map opt_empty_row ts) = Inr (optimized, msgs)"
    by auto
  have bl0: "list_all blank (map opt_empty_row ts)" by (simp add: list_all_iff blank_empty_row)
  from load_price_data_blank[OF ld bl0] have bl: "list_all blank optimized"
    and tm: "map Time optimized = ts" by (simp_all add: comp_def opt_empty_row_def)
  have keys: "map fst tsn = ts" by (simp add: tsn phase1_times init_needs_times)
  have ok: "list_all (\<lambda>tn. sn_ok (snd tn)) tsn"
    unfolding tsn by (rule phase1_ok) (rule init_needs_ok)
  have len: "length optimized = length tsn"
    using tm keys by (metis length_map)
  from phase2_rows_aligned[OF len bl ok, of DAM_ALLOCATION vs1]
  have "map total_charge_kw rows = map (\<lambda>tn. sum_list (map power_kw (vehicles (snd tn)))) tsn"
    by (simp add: rows comp_def)
  with pd(1) have tot: "map total_charge_kw rows
      = map (\<lambda>tn. sum_list (map power_kw (vehicles (snd tn)))) (projected_demand optimized vs)"
    by simp
  have rank: "sorted (map dam_price (sort_key dam_price (stay_slots optimized v)))
        \<and> [r \<leftarrow> sort_key dam_price (stay_slots optimized v). dam_price r = p]
             = [r \<leftarrow> stay_slots optimized v. dam_price r = p]
        \<and> sorted (map Time [r \<leftarrow> sort_key dam_price (stay_slots optimized v). dam_price r = p])" for v p
  proof -
    have a: "sorted (map dam_price (sort_key dam_price (stay_slots optimized v)))" by (rule sorted_sort_key)
    have b: "[r \<leftarrow> sort_key dam_price (stay_slots optimized v). dam_price r = p]
             = [r \<leftarrow> stay_slots optimized v. dam_price r = p]" by (rule sort_key_stable)
    from pd(3) have "sorted (map Time (stay_slots optimized v))"
      unfolding stay_slots_def by (rule sorted_filter)
    then have "sorted (map Time [r \<leftarrow> stay_slots optimized v. dam_price r = p])" by (rule sorted_filter)
    with a b show ?thesis by simp
  qed
  have plain: "vehicle_demand optimized v =
      greedy_demand (max_charge_kw v) ((target_soc v - return_soc v) * capacity_kwh v) (ranked_slots optimized v)"
    if "0 < max_charge_kw v" for v
    using that by (simp add: vehicle_demand_def greedy_demand_pos)
  have none: "vehicle_demand optimized v = []" if "(target_soc v - return_soc v) * capacity_kwh v \<le> 0" for v
  proof -
    from that have "greedy_demand (max_charge_kw v) ((target_soc v - return_soc v) * capacity_kwh v) ts = []" for ts
      by (cases ts) simp_all
    then show ?thesis by (simp add: vehicle_demand_def)
  qed
  from st rows vs' pd(1) tot pd(2) rank plain none show ?thesis by blast
qed

lemma ex3_state_needs:
  "state_needs (phase1_state [(0, 80), (3600, 70)] [] [] ex_fleet3 0 (Some 7200)) = Inr ex_needs3"
  by code_simp

lemma ex3_state_frame:
  "state_frame (phase1_state [(0, 80), (3600, 70)] [] [] ex_fleet3 0 (Some 7200)) = Inr ex_frame3"
  by code_simp

lemma ex3_ranking:
  "ranked_slots ex_frame3 ex_vehicle3 = [3600, 4500, 900, 1800, 2700]
   \<and> vehicle_demand ex_frame3 ex_vehicle3 = [(3600, 11), (4500, 11), (900, 10)]
   \<and> vehicle_demand ex_frame3 (ex_vehicle3\<lparr>max_charge_kw := 0\<rparr>) = []
   \<and> map (\<lambda>tn. sum_list (map power_kw (vehicles (snd tn)))) ex_needs3 = [0, 10, 0, 0, 11, 11, 0, 0]"
  by code_simp

theorem demand_projection_witness:
  "\<exists>rows vs' vs1.
      optimized_strategy [(0, 80), (3600, 70)] [] [] ex_fleet3 0 (Some 7200) (1/20) = Inr (rows, vs')
    \<and> phase1_state [(0, 80), (3600, 70)] [] [] ex_fleet3 0 (Some 7200) = Inr (ex_frame3, ex_needs3, vs1)
    \<and> ex_needs3 = projected_demand ex_frame3 ex_fleet3
    \<and> map total_charge_kw rows = [0, 10, 0, 0, 11, 11, 0, 0]
    \<and> ranked_slots ex_frame3 ex_vehicle3 = [3600, 4500, 900, 1800, 2700]
    \<and> vehicle_demand ex_frame3 ex_vehicle3 = [(3600, 11), (4500, 11), (900, 10)]
    \<and> vehicle_demand ex_frame3 ex_vehicle3 = greedy_demand 11 8 (ranked_slots ex_frame3 ex_vehicle3)
    \<and> vehicle_demand ex_frame3 (ex_vehicle3\<lparr>target_soc := 7/10\<rparr>) = []
    \<and> vehicle_demand ex_frame3 (ex_vehicle3\<lparr>max_charge_kw := 0\<rparr>) = []"
proof -
  from state_needs_Inr[OF ex3_state_needs] obtain optimized vs1 where
    st0: "phase1_state [(0, 80), (3600, 70)] [] [] ex_fleet3 0 (Some 7200) = Inr (optimized, ex_needs3, vs1)"
    by blast
  with ex3_state_frame have "optimized = ex_frame3" by (simp add: state_frame_def)
  with st0 have st: "phase1_state [(0, 80), (3600, 70)] [] [] ex_fleet3 0 (Some 7200) = Inr (ex_frame3, ex_needs3, vs1)"
    by simp
  obtain rows vs' where run:
    "optimized_strategy [(0, 80), (3600, 70)] [] [] ex_fleet3 0 (Some 7200) (1/20) = Inr (rows, vs')"
    by (simp add: optimized_strategy_phase2 st)
  from demand_projection[OF run] st
  have pd: "ex_needs3 = projected_demand ex_frame3 ex_fleet3"
    and tot: "map total_charge_kw rows
             = map (\<lambda>tn. sum_list (map power_kw (vehicles (snd tn)))) (projected_demand ex_frame3 ex_fleet3)"
    and plain: "\<forall>v. 0 < max_charge_kw v \<longrightarrow>
                vehicle_demand ex_frame3 v =
                  greedy_demand (max_charge_kw v) ((target_soc v - return_soc v) * capacity_kwh v)
                    (ranked_slots ex_frame3 v)"
    and none: "\<forall>v. (target_soc v - return_soc v) * capacity_kwh v \<le> 0 \<longrightarrow> vehicle_demand ex_frame3 v = []"
    by auto
  from tot pd ex3_ranking have t: "map total_charge_kw rows = [0, 10, 0, 0, 11, 11, 0, 0]" by simp
  from plain[rule_format, of ex_vehicle3]
  have g: "vehicle_demand ex_frame3 ex_vehicle3 = greedy_demand 11 8 (ranked_slots ex_frame3 ex_vehicle3)"
    by (simp add: ex_vehicle3_def)
  from none[rule_format, of "ex_vehicle3\<lparr>target_soc := 7/10\<rparr>"]
  have z: "vehicle_demand ex_frame3 (ex_vehicle3\<lparr>target_soc := 7/10\<rparr>) = []"
    by (simp add: ex_vehicle3_def)
  from ex3_ranking have r: "ranked_slots ex_frame3 ex_vehicle3 = [3600, 4500, 900, 1800, 2700]"
    "vehicle_demand ex_frame3 ex_vehicle3 = [(3600, 11), (4500, 11), (900, 10)]"
    "vehicle_demand ex_frame3 (ex_vehicle3\<lparr>max_charge_kw := 0\<rparr>) = []"
    by simp_all
  show ?thesis
    apply (rule exI[of _ rows], rule exI[of _ vs'], rule exI[of _ vs1])
    apply (intro conjI)
            apply (rule run)
           apply (rule st)
          apply (rule pd)
         apply (rule t)
        apply (rule r(1))
       apply (rule r(2))
      apply (rule g)
     apply (rule z)
    apply (rule r(3))
    done
qed


section \<open>C8: average prices\<close>

lemma sum_list_pick_none:
  "a \<notin> set ks \<Longrightarrow> sum_list (map (\<lambda>k. if a = k then c else (0::rat)) ks) = 0"
  by (induction ks) auto

lemma sum_list_pick:
  "distinct ks \<Longrightarrow> a \<in> set ks \<Longrightarrow> sum_list (map (\<lambda>k. if a = k then c else (0::rat)) ks) = c"
  by (induction ks) (auto simp: sum_list_pick_none)

text \<open>Summing the sums of the groups of a key is summing the whole list.\<close>

lemma sum_list_groups:
  "distinct ks \<Longrightarrow> g ` set xs \<subseteq> set ks \<Longrightarrow>
     sum_list (map (\<lambda>k. sum_list (map f [x \<leftarrow> xs. g x = k])) ks) = (sum_list (map f xs) :: rat)"
proof (induction xs)
  case Nil
  then show ?case by simp
next
  case (Cons x xs)
  then have mem: "g x \<in> set ks" and sub: "g ` set xs \<subseteq> set ks" by auto
  have "sum_list (map (\<lambda>k. sum_list (map f [y \<leftarrow> x # xs. g y = k])) ks)
      = sum_list (map (\<lambda>k. (if g x = k then f x else 0) + sum_list (map f [y \<leftarrow> xs. g y = k])) ks)"
    by (intro arg_cong[of _ _ sum_list] map_cong) simp_all
  also have "\<dots> = sum_list (map (\<lambda>k. if g x = k then f x else 0) ks)
      + sum_list (map (\<lambda>k. sum_list (map f [y \<leftarrow> xs. g y = k])) ks)"
    by (simp add: sum_list_addf)
  also have "\<dots> = f x + sum_list (map f xs)"
    using sum_list_pick[OF Cons.prems(1) mem] Cons.IH[OF Cons.prems(1) sub] by simp
  finally show ?case by simp
qed

lemma aggregate_sum:
  assumes agg: "\<And>h. hc (agg_hour rows h) = sum_list (map c [r \<leftarrow> rows. hour_floor (Time r) = h])"
    and un: "\<And>r. hc (unaggregated r) = c r"
  shows "sum_list (map hc (aggregate_hourly_results rows)) = (sum_list (map c rows) :: rat)"
proof (cases "length rows > 1 \<and> Time (rows ! 1) - Time (rows ! 0) = 900")
  case True
  let ?ks = "sort (remdups (map (\<lambda>r. hour_floor (Time r)) rows))"
  have d: "distinct ?ks" by simp
  have s: "(\<lambda>r. hour_floor (Time r)) ` set rows \<subseteq> set ?ks" by simp
  from True have "sum_list (map hc (aggregate_hourly_results rows))
      = sum_list (map (\<lambda>h. sum_list (map c [r \<leftarrow> rows. hour_floor (Time r) = h])) ?ks)"
    by (simp add: aggregate_hourly_results_def comp_def agg)
  also have "\<dots> = sum_list (map c rows)" using d s by (rule sum_list_groups)
  finally show ?thesis .
next
  case False
  then have "aggregate_hourly_results rows = map unaggregated rows"
    unfolding aggregate_hourly_results_def by (rule if_not_P)
  then show ?thesis by (simp add: comp_def un)
qed

text \<open>The cost columns are summed by the aggregation, so their totals are those of the
  15-minute schedule.\<close>

lemma aggregate_costs:
  "sum_list (map h_dam_cost (aggregate_hourly_results rows)) = sum_list (map dam_cost rows)"
  "sum_list (map h_idm_15_cost (aggregate_hourly_results rows)) = sum_list (map idm_15_cost rows)"
  "sum_list (map h_idm_60_cost (aggregate_hourly_results rows)) = sum_list (map idm_60_cost rows)"
proof -
  show "sum_list (map h_dam_cost (aggregate_hourly_results rows)) = sum_list (map dam_cost rows)"
    by (rule aggregate_sum) (simp_all add: agg_hour_def unaggregated_def Let_def)
  show "sum_list (map h_idm_15_cost (aggregate_hourly_results rows)) = sum_list (map idm_15_cost rows)"
    by (rule aggregate_sum) (simp_all add: agg_hour_def unaggregated_def Let_def)
  show "sum_list (map h_idm_60_cost (aggregate_hourly_results rows)) = sum_list (map idm_60_cost rows)"
    by (rule aggregate_sum) (simp_all add: agg_hour_def unaggregated_def Let_def)
qed

lemma mean_nonneg: "(\<And>x. x \<in> set xs \<Longrightarrow> 0 \<le> x) \<Longrightarrow> 0 \<le> mean xs"
  by (simp add: mean_def sum_list_nonneg)

lemma aggregate_nonneg:
  assumes agg: "\<And>h. hc (agg_hour rows h) = mean (map c [r \<leftarrow> rows. hour_floor (Time r) = h])"
    and un: "\<And>r. hc (unaggregated r) = c r"
    and nn: "\<And>r. r \<in> set rows \<Longrightarrow> 0 \<le> c r"
  shows "(0::rat) \<le> sum_list (map hc (aggregate_hourly_results rows))"
proof (rule sum_list_nonneg)
  fix x assume "x \<in> set (map hc (aggregate_hourly_results rows))"
  then obtain hr where hr: "hr \<in> set (aggregate_hourly_results rows)" and x: "x = hc hr" by auto
  show "0 \<le> x"
  proof (cases "length rows > 1 \<and> Time (rows ! 1) - Time (rows ! 0) = 900")
    case True
    with hr obtain h where "hr = agg_hour rows h" by (auto simp: aggregate_hourly_results_def)
    with x agg have "x = mean (map c [r \<leftarrow> rows. hour_floor (Time r) = h])" by simp
    moreover have "0 \<le> mean (map c [r \<leftarrow> rows. hour_floor (Time r) = h])"
      by (rule mean_nonneg) (auto intro: nn)
    ultimately show ?thesis by simp
  next
    case False
    with hr obtain r where "r \<in> set rows" "hr = unaggregated r" by (auto simp: aggregate_hourly_results_def)
    with x un nn show ?thesis by simp
  qed
qed

text \<open>The loop over the slots writes a power into a row only when it is positive, so no
  power column of the schedule is negative, whatever the allocation fraction.\<close>

lemma optimized_rows_nonneg:
  assumes run: "optimized_strategy dam i15 i60 vs s e A = Inr (rows, vs')"
    and r: "r \<in> set rows"
  shows "0 \<le> dam_charge_kw r" "0 \<le> idm_15_charge_kw r" "0 \<le> idm_60_charge_kw r"
proof -
  from optimized_strategy_rows[OF run r] obtain row where b: "blank row" and
    c: "r = calc_costs row \<or> (\<exists>sn. sn_ok sn \<and> vehicles sn \<noteq> [] \<and> r = calc_costs (update_row A row sn))"
    by blast
  from c show "0 \<le> dam_charge_kw r"
    using b update_row_dam[OF b] by (auto simp: blank_def)
  from c show "0 \<le> idm_15_charge_kw r"
    using b update_row_idm[OF b] by (auto simp: blank_def)
  from c show "0 \<le> idm_60_charge_kw r"
    using b update_row_idm[OF b] by (auto simp: blank_def)
qed

lemma aggregate_energy_nonneg:
  assumes run: "optimized_strategy dam i15 i60 vs s e A = Inr (rows, vs')"
  shows "0 \<le> sum_list (map h_dam_charge_kw (aggregate_hourly_results rows))"
    and "0 \<le> sum_list (map h_idm_15_charge_kw (aggregate_hourly_results rows))"
    and "0 \<le> sum_list (map h_idm_60_charge_kw (aggregate_hourly_results rows))"
proof -
  note nn = optimized_rows_nonneg[OF run]
  show "0 \<le> sum_list (map h_dam_charge_kw (aggregate_hourly_results rows))"
    by (rule aggregate_nonneg[where c = dam_charge_kw]) (simp_all add: agg_hour_def unaggregated_def Let_def nn)
  show "0 \<le> sum_list (map h_idm_15_charge_kw (aggregate_hourly_results rows))"
    by (rule aggregate_nonneg[where c = idm_15_charge_kw]) (simp_all add: agg_hour_def unaggregated_def Let_def nn)
  show "0 \<le> sum_list (map h_idm_60_charge_kw (aggregate_hourly_results rows))"
    by (rule aggregate_nonneg[where c = idm_60_charge_kw]) (simp_all add: agg_hour_def unaggregated_def Let_def nn)
qed

lemma summarize_results_cases:
  "summarize_results (Some baseline) (Some optimized) vs =
     (if vs = [] then Inl (ZeroDivisionError ''division by zero'')
      else Inr (Some
        (let be = sum_list (map bl_total_charge_kw baseline);
             bc = sum_list (map bl_dam_cost baseline);
             de = sum_list (map h_dam_charge_kw (aggregate_hourly_results optimized));
             e15 = sum_list (map h_idm_15_charge_kw (aggregate_hourly_results optimized));
             e60 = sum_list (map h_idm_60_charge_kw (aggregate_hourly_results optimized));
             dc = sum_list (map dam_cost optimized);
             c15 = sum_list (map idm_15_cost optimized);
             c60 = sum_list (map idm_60_cost optimized)
         in \<lparr>baseline_total_cost = bc,
             optimized_dam_cost = dc,
             optimized_idm_15_cost = c15,
             optimized_idm_60_cost = c60,
             optimized_total_cost = dc + (c15 + c60),
             savings = bc - (dc + (c15 + c60)),
             savings_pct = (if bc > 0 then (bc - (dc + (c15 + c60))) / bc * 100 else 0),
             baseline_energy = be,
             optimized_dam_energy = de,
             optimized_idm_15_energy = e15,
             optimized_idm_60_energy = e60,
             optimized_total_energy = de + e15 + e60,
             baseline_avg_price = (if be > 0 then bc / (be / 1000) else 0),
             optimized_dam_avg_price = (if de > 0 then dc / (de / 1000) else 0),
             optimized_idm_15_avg_price = (if e15 > 0 then c15 / (e15 / 1000) else 0),
             optimized_idm_60_avg_price = (if e60 > 0 then c60 / (e60 / 1000) else 0),
             optimized_total_avg_price =
               (if de + e15 + e60 > 0 then (dc + (c15 + c60)) / ((de + e15 + e60) / 1000) else 0),
             avg_departure_soc = sum_list (map current_soc vs) / of_nat (length vs),
             min_departure_soc = Min (set (map current_soc vs))\<rparr>)))"
  by (simp add: summarize_results_def Let_def aggregate_costs)

text \<open>On an empty fleet \<open>summarize_results\<close> raises before it prints the table, whatever the
  results are.\<close>

lemma summarize_results_empty_fleet:
  "summarize_results (Some baseline) (Some optimized) [] = Inl (ZeroDivisionError ''division by zero'')"
  by (simp add: summarize_results_cases)

lemma optimized_after_baseline:
  assumes "baseline_strategy srt dam vs s' e' = Inr (rows_b, vs_b)"
  shows "result_rows (optimized_strategy dam i15 i60 vs_b s e A)
       = result_rows (optimized_strategy dam i15 i60 vs s e A)"
proof -
  from assms have rel: "map static vs_b = map static vs" by (rule baseline_strategy_static)
  have "result_rows (optimized_strategy dam i15 i60 vs_b s e A)
        = result_rows (optimized_strategy dam i15 i60 vs s e A)
      \<and> map_sum id (map static) (result_vehicles (optimized_strategy dam i15 i60 vs_b s e A))
        = map_sum id (map static) (result_vehicles (optimized_strategy dam i15 i60 vs s e A))"
    by (rule optimized_strategy_rel[OF _ _ _ _ rel]) (metis static_facts)+
  then show ?thesis by simp
qed

lemma ex_late_baseline:
  "result_rows (baseline_strategy (sort_key bl_dam_price) [(0, 80), (3600, 70)] [ex_vehicle_late] 0 (Some 7200))
     = Inr ex_bl_rows_late"
  by code_simp

lemma ex_late_optimized:
  "result_rows (optimized_strategy [(0, 80), (3600, 70)] [] [] [ex_vehicle_late] 0 (Some 7200) (1/20))
     = Inr ex_opt_rows_late"
  by code_simp

lemma ex_late_totals:
  "sum_list (map bl_total_charge_kw ex_bl_rows_late) = 0
   \<and> sum_list (map bl_dam_cost ex_bl_rows_late) = 0
   \<and> sum_list (map h_dam_charge_kw (aggregate_hourly_results ex_opt_rows_late)) = 8
   \<and> sum_list (map h_idm_15_charge_kw (aggregate_hourly_results ex_opt_rows_late)) = 0
   \<and> sum_list (map h_idm_60_charge_kw (aggregate_hourly_results ex_opt_rows_late)) = 0
   \<and> sum_list (map dam_cost ex_opt_rows_late) = 14/25
   \<and> sum_list (map idm_15_cost ex_opt_rows_late) = 0
   \<and> sum_list (map idm_60_cost ex_opt_rows_late) = 0"
  by code_simp

text \<open>
  Claim C8 as stated fails for the line printed by \<open>baseline_strategy\<close>: on the run of the
  late vehicle the baseline charges no energy and that line reads \<open>N/A\<close>, it is not the
  number zero.
\<close>

theorem baseline_average_not_zero_counterexample:
  "result_rows (baseline_strategy (sort_key bl_dam_price) [(0, 80), (3600, 70)] [ex_vehicle_late] 0 (Some 7200))
     = Inr ex_bl_rows_late
   \<and> sum_list (map bl_total_charge_kw ex_bl_rows_late) = 0
   \<and> baseline_avg_line ex_bl_rows_late = Not_Available
   \<and> baseline_avg_line ex_bl_rows_late \<noteq> Avg 0"
  by code_simp

text \<open>
  Claim C8, amended. Let the baseline and then the optimized strategy run on a fleet with
  at least one vehicle. Then \<open>summarize_results\<close> reaches its table, and each of its five
  average prices is \<open>total_cost / (total_energy_kwh / 1000)\<close> when its energy is not zero
  and zero when it is; the costs are the sums of the cost columns of the schedules, the
  energies of the optimized run are the sums over the hourly frame and are never
  negative. The line printed by \<open>baseline_strategy\<close> is that quotient for a positive
  energy and \<open>N/A\<close> otherwise.
\<close>

theorem average_price_reporting:
  assumes bl: "baseline_strategy sort_values dam_prices vs s e = Inr (baseline, vs1)"
    and op: "optimized_strategy dam_prices idm_15_prices idm_60_prices vs1 s e DAM_ALLOCATION = Inr (optimized, vs2)"
    and ne: "vs \<noteq> []"
  shows "\<exists>rep. summarize_results (Some baseline) (Some optimized) vs2 = Inr (Some rep)
       \<and> baseline_total_cost rep = sum_list (map bl_dam_cost baseline)
       \<and> baseline_energy rep = sum_list (map bl_total_charge_kw baseline)
       \<and> optimized_dam_cost rep = sum_list (map dam_cost optimized)
       \<and> optimized_idm_15_cost rep = sum_list (map idm_15_cost optimized)
       \<and> optimized_idm_60_cost rep = sum_list (map idm_60_cost optimized)
       \<and> optimized_total_cost rep
            = optimized_dam_cost rep + optimized_idm_15_cost rep + optimized_idm_60_cost rep
       \<and> optimized_dam_energy rep = sum_list (map h_dam_charge_kw (aggregate_hourly_results optimized))
       \<and> optimized_idm_15_energy rep = sum_list (map h_idm_15_charge_kw (aggregate_hourly_results optimized))
       \<and> optimized_idm_60_energy rep = sum_list (map h_idm_60_charge_kw (aggregate_hourly_results optimized))
       \<and> optimized_total_energy rep
            = optimized_dam_energy rep + optimized_idm_15_energy rep + optimized_idm_60_energy rep
       \<and> 0 \<le> optimized_dam_energy rep \<and> 0 \<le> optimized_idm_15_energy rep
       \<and> 0 \<le> optimized_idm_60_energy rep \<and> 0 \<le> optimized_total_energy rep
       \<and> baseline_avg_price rep
            = (if baseline_energy rep > 0 then baseline_total_cost rep / (baseline_energy rep / 1000) else 0)
       \<and> optimized_dam_avg_price rep
            = (if optimized_dam_energy rep = 0 then 0
               else optimized_dam_cost rep / (optimized_dam_energy rep / 1000))
       \<and> optimized_idm_15_avg_price rep
            = (if optimized_idm_15_energy rep = 0 then 0
               else optimized_idm_15_cost rep / (optimized_idm_15_energy rep / 1000))
       \<and> optimized_idm_60_avg_price rep
            = (if optimized_idm_60_energy rep = 0 then 0
               else optimized_idm_60_cost rep / (optimized_idm_60_energy rep / 1000))
       \<and> optimized_total_avg_price rep
            = (if optimized_total_energy rep = 0 then 0
               else optimized_total_cost rep / (optimized_total_energy rep / 1000))
       \<and> baseline_avg_line baseline
            = (if baseline_energy rep > 0
               then Avg (baseline_total_cost rep / (baseline_energy rep / 1000)) else Not_Available)"
proof -
  from rel_length[OF baseline_strategy_static[OF bl]] rel_length[OF optimized_strategy_static[OF op]] ne
  have ne2: "vs2 \<noteq> []" by auto
  note nn = aggregate_energy_nonneg[OF op]
  let ?de = "sum_list (map h_dam_charge_kw (aggregate_hourly_results optimized))"
  let ?e15 = "sum_list (map h_idm_15_charge_kw (aggregate_hourly_results optimized))"
  let ?e60 = "sum_list (map h_idm_60_charge_kw (aggregate_hourly_results optimized))"
  from nn have tot: "0 \<le> ?de + ?e15 + ?e60" by simp
  have pos: "(0 < x) = (x \<noteq> 0)" if "0 \<le> x" for x :: rat using that by auto
  show ?thesis
    unfolding summarize_results_cases using ne2 nn tot
    by (simp add: Let_def baseline_avg_line_def pos)
qed

theorem average_price_reporting_witness:
  "\<exists>vs1 vs2 rep.
      baseline_strategy (sort_key bl_dam_price) [(0, 80), (3600, 70)] [ex_vehicle_late] 0 (Some 7200)
        = Inr (ex_bl_rows_late, vs1)
    \<and> optimized_strategy [(0, 80), (3600, 70)] [] [] vs1 0 (Some 7200) (1/20) = Inr (ex_opt_rows_late, vs2)
    \<and> [ex_vehicle_late] \<noteq> []
    \<and> summarize_results (Some ex_bl_rows_late) (Some ex_opt_rows_late) vs2 = Inr (Some rep)
    \<and> baseline_energy rep = 0 \<and> baseline_avg_price rep = 0
    \<and> baseline_avg_line ex_bl_rows_late = Not_Available
    \<and> optimized_dam_energy rep = 8 \<and> optimized_dam_cost rep = 14/25 \<and> optimized_dam_avg_price rep = 70
    \<and> optimized_idm_15_energy rep = 0 \<and> optimized_idm_15_avg_price rep = 0
    \<and> optimized_idm_60_energy rep = 0 \<and> optimized_idm_60_avg_price rep = 0
    \<and> optimized_total_energy rep = 8 \<and> optimized_total_avg_price rep = 70"
proof -
  obtain vs1 where bl:
    "baseline_strategy (sort_key bl_dam_price) [(0, 80), (3600, 70)] [ex_vehicle_late] 0 (Some 7200)
       = Inr (ex_bl_rows_late, vs1)"
    using result_rows_Inr[OF ex_late_baseline] by blast
  have "result_rows (optimized_strategy [(0, 80), (3600, 70)] [] [] vs1 0 (Some 7200) (1/20)) = Inr ex_opt_rows_late"
    using optimized_after_baseline[OF bl] ex_late_optimized by simp
  then obtain vs2 where op:
    "optimized_strategy [(0, 80), (3600, 70)] [] [] vs1 0 (Some 7200) (1/20) = Inr (ex_opt_rows_late, vs2)"
    using result_rows_Inr by blast
  have ne: "[ex_vehicle_late] \<noteq> []" by simp
  from average_price_reporting[OF bl op ne] obtain rep where
    rep: "summarize_results (Some ex_bl_rows_late) (Some ex_opt_rows_late) vs2 = Inr (Some rep)" and
    f: "baseline_energy rep = 0" "baseline_avg_price rep = 0"
       "baseline_avg_line ex_bl_rows_late = Not_Available"
       "optimized_dam_energy rep = 8" "optimized_dam_cost rep = 14/25" "optimized_dam_avg_price rep = 70"
       "optimized_idm_15_energy rep = 0" "optimized_idm_15_avg_price rep = 0"
       "optimized_idm_60_energy rep = 0" "optimized_idm_60_avg_price rep = 0"
       "optimized_total_energy rep = 8" "optimized_total_avg_price rep = 70"
    using ex_late_totals by auto
  show ?thesis
    apply (rule exI[of _ vs1], rule exI[of _ vs2], rule exI[of _ rep])
    apply (intro conjI)
                   apply (rule bl)
                  apply (rule op)
                 apply (rule ne)
                apply (rule rep)
               apply (rule f(1))
              apply (rule f(2))
             apply (rule f(3))
            apply (rule f(4))
           apply (rule f(5))
          apply (rule f(6))
         apply (rule f(7))
        apply (rule f(8))
       apply (rule f(9))
      apply (rule f(10))
     apply (rule f(11))
    apply (rule f(12))
    done
qed

end
